theory Spec2Isabelle
  imports Main "HOL-Library.Signed_Division"
begin

section \<open>Machine integers\<close>

text \<open>
  \<open>Price\<close> and \<open>Quantity\<close> are \<open>int64_t\<close>, \<open>OrderId\<close> is \<open>uint64_t\<close>, owner and
  session ids are \<open>uint32_t\<close>, counters are \<open>size_t\<close> or \<open>uint64_t\<close>. Signed values
  are modelled as \<open>int\<close> and unsigned ones as \<open>nat\<close>; where the source adds, subtracts
  or multiplies, the two's complement wrap-around is written out with \<open>wrap64\<close>
  (signed) and \<open>mod 2 ^ 64\<close> (unsigned). Division is C's truncating division,
  \<open>sdiv\<close>.
\<close>

definition LLONG_MAX :: int where
  "LLONG_MAX = 9223372036854775807"

definition wrap64 :: "int \<Rightarrow> int" where
  "wrap64 x = (x + 2 ^ 63) mod 2 ^ 64 - 2 ^ 63"

definition in64 :: "int \<Rightarrow> bool" where
  "in64 x \<longleftrightarrow> - (2 ^ 63) \<le> x \<and> x \<le> LLONG_MAX"

section \<open>types.h\<close>

datatype Side = BUY | SELL

datatype OrderType = GTC | IOC | FOK | MARKET | STOP_LOSS | ICEBERG

record Order =
  order_id :: nat
  side :: Side
  price :: int
  stop_price :: int
  quantity :: int
  remaining :: int
  display :: int
  display_size :: int
  otype :: OrderType
  timestamp :: int
  ownerID :: nat
  is_triggered :: bool
  parent_id :: nat
  is_market_maker :: bool
  session_id :: nat

text \<open>
  The default constructor \<open>Order()\<close>. It leaves \<open>is_market_maker\<close> and
  \<open>session_id\<close> uninitialised; the model takes \<open>False\<close> and \<open>0\<close> for them.
\<close>

definition Order_default :: Order where
  "Order_default =
     \<lparr> order_id = 0, side = BUY, price = 0, stop_price = 0, quantity = 0,
       remaining = 0, display = 0, display_size = 0, otype = GTC,
       timestamp = 0, ownerID = 0, is_triggered = False, parent_id = 0,
       is_market_maker = False, session_id = 0 \<rparr>"

text \<open>
  The constructor \<open>Order(id, side, price, stop_price, qty, disp, display_size, type,
  ownerID, sessionID)\<close>. The time stamp is read from the clock and
  \<open>is_market_maker\<close> is left uninitialised: both are arguments of the model
  (\<open>now\<close> and \<open>mm\<close>).
\<close>

definition Order_new ::
  "nat \<Rightarrow> Side \<Rightarrow> int \<Rightarrow> int \<Rightarrow> int \<Rightarrow> int \<Rightarrow> int \<Rightarrow> OrderType \<Rightarrow> nat \<Rightarrow> nat \<Rightarrow> int \<Rightarrow> bool
     \<Rightarrow> Order" where
  "Order_new i sd p sp qty disp dsize ty owner sess now mm =
     \<lparr> order_id = i, side = sd, price = p, stop_price = sp, quantity = qty,
       remaining = qty, display = disp, display_size = dsize, otype = ty,
       timestamp = now, ownerID = owner, is_triggered = False, parent_id = 0,
       is_market_maker = mm, session_id = sess \<rparr>"

text \<open>A trade; its wall-clock time stamp is left out of the model.\<close>

record Trade =
  buy_id :: nat
  sell_id :: nat
  trade_price :: int
  trade_quantity :: int

section \<open>tick\_table.h\<close>

record TickRule =
  min_price :: int
  max_price :: int
  tick_size :: int

datatype tick_error = Invalid_tick_rule | Overlapping_tick_rule

text \<open>
  \<open>add_rule\<close> throws on an inverted, non-positive or overlapping band; otherwise it
  appends the band and sorts the vector by \<open>min_price\<close>.
\<close>

definition add_rule :: "TickRule list \<Rightarrow> int \<Rightarrow> int \<Rightarrow> int \<Rightarrow> tick_error + TickRule list" where
  "add_rule rules mn mx tk =
     (if mn > mx \<or> tk \<le> 0 \<or> mn < 0 then Inl Invalid_tick_rule
      else if \<exists>r \<in> set rules. \<not> (mx < min_price r \<or> mn > max_price r)
        then Inl Overlapping_tick_rule
      else Inr (sort_key min_price
                  (rules @ [\<lparr> min_price = mn, max_price = mx, tick_size = tk \<rparr>])))"

text \<open>The bands that the constructor \<open>TickSizeTable()\<close> installs.\<close>

definition default_rules :: "TickRule list" where
  "default_rules =
     [ \<lparr> min_price = 1, max_price = 99, tick_size = 1 \<rparr>,
       \<lparr> min_price = 100, max_price = 999, tick_size = 1 \<rparr>,
       \<lparr> min_price = 1000, max_price = 4999, tick_size = 1 \<rparr>,
       \<lparr> min_price = 5000, max_price = 9999, tick_size = 1 \<rparr>,
       \<lparr> min_price = 10000, max_price = 99999, tick_size = 1 \<rparr>,
       \<lparr> min_price = 100000, max_price = 499999, tick_size = 5 \<rparr>,
       \<lparr> min_price = 500000, max_price = 999999, tick_size = 10 \<rparr>,
       \<lparr> min_price = 1000000, max_price = LLONG_MAX, tick_size = 100 \<rparr> ]"

fun add_rules :: "TickRule list \<Rightarrow> (int \<times> int \<times> int) list \<Rightarrow> tick_error + TickRule list" where
  "add_rules rules [] = Inr rules"
| "add_rules rules ((mn, mx, tk) # rest) =
     (case add_rule rules mn mx tk of
        Inl e \<Rightarrow> Inl e
      | Inr rules' \<Rightarrow> add_rules rules' rest)"

definition TickSizeTable :: "tick_error + TickRule list" where
  "TickSizeTable =
     add_rules []
       [ (1, 99, 1), (100, 999, 1), (1000, 4999, 1), (5000, 9999, 1),
         (10000, 99999, 1), (100000, 499999, 5), (500000, 999999, 10),
         (1000000, LLONG_MAX, 100) ]"

text \<open>
  \<open>round_to_tick\<close>: the first band that contains the price decides; the sum
  \<open>price + half_tick\<close> and the product are 64-bit.
\<close>

definition round_to_tick :: "TickRule list \<Rightarrow> int \<Rightarrow> int" where
  "round_to_tick rules p =
     (if p \<le> 0 then 0
      else case find (\<lambda>r. min_price r \<le> p \<and> max_price r \<ge> p) rules of
             None \<Rightarrow> 0
           | Some r \<Rightarrow>
               (let half_tick = tick_size r sdiv 2
                in wrap64 ((wrap64 (p + half_tick) sdiv tick_size r) * tick_size r)))"

definition is_valid_price :: "TickRule list \<Rightarrow> int \<Rightarrow> bool" where
  "is_valid_price rules p \<longleftrightarrow> p = round_to_tick rules p"

section \<open>object\_pool.h\<close>

text \<open>
  \<open>ObjectPool<Order>\<close>. An \<open>Order *\<close> is the index of the object in \<open>pool\<close>; the
  null pointer is \<open>None\<close>. \<open>available\<close> is the stack of free objects, top first
  (member names are written without their trailing underscore).
  \<open>allocated_count\<close> is a \<open>size_t\<close>.
\<close>

record OrderPool =
  pool :: "Order list"
  available :: "nat list"
  pool_size :: nat
  allocated_count :: nat
  valid_objects :: "nat set"

definition ObjectPool :: "nat \<Rightarrow> OrderPool" where
  "ObjectPool initial_size =
     \<lparr> pool = replicate initial_size Order_default,
       available = rev [0..<initial_size],
       pool_size = initial_size,
       allocated_count = 0,
       valid_objects = {0..<initial_size} \<rparr>"

definition acquire :: "OrderPool \<Rightarrow> nat \<times> OrderPool" where
  "acquire P =
     (case available P of
        [] \<Rightarrow>
          (let ptr = length (pool P)
           in (ptr, P\<lparr> valid_objects := insert ptr (valid_objects P),
                       pool := pool P @ [Order_default],
                       allocated_count := (allocated_count P + 1) mod 2 ^ 64 \<rparr>))
      | ptr # rest \<Rightarrow>
          (ptr, P\<lparr> available := rest,
                    allocated_count := (allocated_count P + 1) mod 2 ^ 64 \<rparr>))"

definition reset_order :: "Order \<Rightarrow> Order" where
  "reset_order order =
     order\<lparr> order_id := 0, price := 0, stop_price := 0, quantity := 0, remaining := 0,
            display := 0, display_size := 0, timestamp := 0, ownerID := 0,
            is_triggered := False, parent_id := 0, session_id := 0 \<rparr>"

definition release :: "nat option \<Rightarrow> OrderPool \<Rightarrow> OrderPool" where
  "release obj P =
     (case obj of
        None \<Rightarrow> P
      | Some ptr \<Rightarrow>
          if ptr \<notin> valid_objects P then P
          else P\<lparr> pool := (pool P)[ptr := reset_order (pool P ! ptr)],
                  available := ptr # available P,
                  allocated_count := (allocated_count P + 2 ^ 64 - 1) mod 2 ^ 64 \<rparr>)"

text \<open>A pool of one slot, its slot acquired and released once.\<close>

definition pool_released_once :: OrderPool where
  "pool_released_once =
     (let (ptr, P) = acquire (ObjectPool 1) in release (Some ptr) P)"

text \<open>A pool of one slot whose slot holds a live market-maker FOK sell order.\<close>

definition pool_live_sell :: OrderPool where
  "pool_live_sell =
     (let (ptr, P) = acquire (ObjectPool 1)
      in P\<lparr> pool := (pool P)[ptr := Order_new 7 SELL 100 0 10 10 0 FOK 3 0 1 True] \<rparr>)"

section \<open>stop\_manager.h\<close>

text \<open>
  A \<open>std::map\<close> is an association list kept in the order of its comparator \<open>lt\<close>.
  \<open>map_at lt k d f m\<close> is \<open>m[k]\<close> followed by the update \<open>f\<close> of the value found:
  \<open>operator[]\<close> first inserts the default value \<open>d\<close> where the key is missing.
\<close>

fun map_at :: "('k \<Rightarrow> 'k \<Rightarrow> bool) \<Rightarrow> 'k \<Rightarrow> 'v \<Rightarrow> ('v \<Rightarrow> 'v) \<Rightarrow> ('k \<times> 'v) list \<Rightarrow> ('k \<times> 'v) list" where
  "map_at lt k d f [] = [(k, f d)]"
| "map_at lt k d f ((k', v) # m) =
     (if k = k' then (k', f v) # m
      else if lt k k' then (k, f d) # (k', v) # m
      else (k', v) # map_at lt k d f m)"

definition map_find :: "'k \<Rightarrow> ('k \<times> 'v) list \<Rightarrow> 'v option" where
  "map_find k m = map_of m k"

definition map_erase :: "'k \<Rightarrow> ('k \<times> 'v) list \<Rightarrow> ('k \<times> 'v) list" where
  "map_erase k m = filter (\<lambda>kv. fst kv \<noteq> k) m"

record StopOrderManager =
  buy_stops :: "(int \<times> nat list) list"
  sell_stops :: "(int \<times> nat list) list"
  stop_lookup :: "nat \<rightharpoonup> nat"

definition StopOrderManager_empty :: StopOrderManager where
  "StopOrderManager_empty = \<lparr> buy_stops = [], sell_stops = [], stop_lookup = Map.empty \<rparr>"

text \<open>The functions read the orders they are given through the array of pool objects.\<close>

definition add_stop_order :: "Order list \<Rightarrow> nat \<Rightarrow> StopOrderManager \<Rightarrow> StopOrderManager" where
  "add_stop_order mem ptr sm =
     (let order = mem ! ptr
      in if otype order \<noteq> STOP_LOSS then sm
         else
           (let sm' =
                  (if side order = BUY
                   then sm\<lparr> buy_stops :=
                              map_at (<) (stop_price order) [] (\<lambda>b. b @ [ptr]) (buy_stops sm) \<rparr>
                   else sm\<lparr> sell_stops :=
                              map_at (<) (stop_price order) [] (\<lambda>b. b @ [ptr]) (sell_stops sm) \<rparr>)
            in sm'\<lparr> stop_lookup := (stop_lookup sm')(order_id order \<mapsto> ptr) \<rparr>))"

definition erase_if_empty :: "int \<Rightarrow> (int \<times> nat list) list \<Rightarrow> (int \<times> nat list) list" where
  "erase_if_empty k m = (if map_find k m = Some [] then map_erase k m else m)"

definition remove_stop_order :: "Order list \<Rightarrow> nat \<Rightarrow> StopOrderManager \<Rightarrow> bool \<times> StopOrderManager" where
  "remove_stop_order mem i sm =
     (case stop_lookup sm i of
        None \<Rightarrow> (False, sm)
      | Some ptr \<Rightarrow>
          (let order = mem ! ptr;
               sm' =
                 (if side order = BUY
                  then sm\<lparr> buy_stops :=
                             erase_if_empty (stop_price order)
                               (map_at (<) (stop_price order) [] (remove1 ptr) (buy_stops sm)) \<rparr>
                  else sm\<lparr> sell_stops :=
                             erase_if_empty (stop_price order)
                               (map_at (<) (stop_price order) [] (remove1 ptr) (sell_stops sm)) \<rparr>)
           in (True, sm'\<lparr> stop_lookup := (stop_lookup sm')(i := None) \<rparr>)))"

text \<open>
  In a map sorted by \<open><\<close>, the range from \<open>begin()\<close> to \<open>upper_bound(k)\<close> is the longest
  prefix whose keys are \<open>\<le> k\<close>, and the range from \<open>lower_bound(k)\<close> to \<open>end()\<close> is what
  is left after the longest prefix whose keys are \<open>< k\<close>.
\<close>

definition upto_upper_bound :: "int \<Rightarrow> (int \<times> 'v) list \<Rightarrow> (int \<times> 'v) list" where
  "upto_upper_bound k m = takeWhile (\<lambda>kv. fst kv \<le> k) m"

definition from_upper_bound :: "int \<Rightarrow> (int \<times> 'v) list \<Rightarrow> (int \<times> 'v) list" where
  "from_upper_bound k m = dropWhile (\<lambda>kv. fst kv \<le> k) m"

definition upto_lower_bound :: "int \<Rightarrow> (int \<times> 'v) list \<Rightarrow> (int \<times> 'v) list" where
  "upto_lower_bound k m = takeWhile (\<lambda>kv. fst kv < k) m"

definition from_lower_bound :: "int \<Rightarrow> (int \<times> 'v) list \<Rightarrow> (int \<times> 'v) list" where
  "from_lower_bound k m = dropWhile (\<lambda>kv. fst kv < k) m"

definition erase_ids :: "Order list \<Rightarrow> nat list \<Rightarrow> (nat \<rightharpoonup> nat) \<Rightarrow> (nat \<rightharpoonup> nat)" where
  "erase_ids mem ptrs lookup = fold (\<lambda>ptr m. m(order_id (mem ! ptr) := None)) ptrs lookup"

definition check_triggered_stops ::
  "Order list \<Rightarrow> int \<Rightarrow> StopOrderManager \<Rightarrow> nat list \<times> StopOrderManager" where
  "check_triggered_stops mem last_trade_price sm =
     (let fired_buys = concat (map snd (upto_upper_bound last_trade_price (buy_stops sm)));
          fired_sells = concat (map snd (from_lower_bound last_trade_price (sell_stops sm)));
          triggered_orders = fired_buys @ fired_sells
      in (triggered_orders,
          \<lparr> buy_stops = from_upper_bound last_trade_price (buy_stops sm),
            sell_stops = upto_lower_bound last_trade_price (sell_stops sm),
            stop_lookup = erase_ids mem triggered_orders (stop_lookup sm) \<rparr>))"

text \<open>
  Four stop orders in pool objects 0 to 3 (buy stops at 90 and 95, sell stops at 100 and
  105) and the manager after \<open>add_stop_order\<close> of each, the sell at 105 first.
\<close>

definition stops_mem :: "Order list" where
  "stops_mem =
     [ Order_new 1 SELL 0 100 5 5 0 STOP_LOSS 11 0 0 False,
       Order_new 2 SELL 0 105 5 5 0 STOP_LOSS 12 0 0 False,
       Order_new 3 BUY 0 95 5 5 0 STOP_LOSS 13 0 0 False,
       Order_new 4 BUY 0 90 5 5 0 STOP_LOSS 14 0 0 False ]"

definition stops_example :: StopOrderManager where
  "stops_example =
     add_stop_order stops_mem 3
       (add_stop_order stops_mem 2
          (add_stop_order stops_mem 0
             (add_stop_order stops_mem 1 StopOrderManager_empty)))"

text \<open>
  The order of emission in the words of the specification: the buy stops at or below the
  last trade price by ascending trigger price, then the sell stops at or above it by
  descending trigger price.
\<close>

definition triggered_as_specified :: "int \<Rightarrow> StopOrderManager \<Rightarrow> nat list" where
  "triggered_as_specified last_trade_price sm =
     concat (map snd (filter (\<lambda>kv. fst kv \<le> last_trade_price) (buy_stops sm)))
     @ concat (map snd (rev (filter (\<lambda>kv. last_trade_price \<le> fst kv) (sell_stops sm))))"

section \<open>order\_book.h\<close>

record PriceLevel =
  mm_orders :: "nat list"
  regular_orders :: "nat list"

text \<open>The value-initialised level that \<open>operator[]\<close> inserts.\<close>

definition PriceLevel_new :: PriceLevel where
  "PriceLevel_new = \<lparr> mm_orders = [], regular_orders = [] \<rparr>"

text \<open>
  \<open>front\<close> and \<open>pop_front\<close> are only called on a level that is not empty; on an empty
  level the source reads the front of an empty deque.
\<close>

definition PriceLevel_front :: "PriceLevel \<Rightarrow> nat" where
  "PriceLevel_front level =
     (if mm_orders level \<noteq> [] then hd (mm_orders level) else hd (regular_orders level))"

definition PriceLevel_pop_front :: "PriceLevel \<Rightarrow> PriceLevel" where
  "PriceLevel_pop_front level =
     (if mm_orders level \<noteq> [] then level\<lparr> mm_orders := tl (mm_orders level) \<rparr>
      else level\<lparr> regular_orders := tl (regular_orders level) \<rparr>)"

definition PriceLevel_add_order :: "Order list \<Rightarrow> nat \<Rightarrow> PriceLevel \<Rightarrow> PriceLevel" where
  "PriceLevel_add_order mem ptr level =
     (if is_market_maker (mem ! ptr) then level\<lparr> mm_orders := mm_orders level @ [ptr] \<rparr>
      else level\<lparr> regular_orders := regular_orders level @ [ptr] \<rparr>)"

definition PriceLevel_empty :: "PriceLevel \<Rightarrow> bool" where
  "PriceLevel_empty level \<longleftrightarrow> mm_orders level = [] \<and> regular_orders level = []"

definition PriceLevel_erase :: "nat \<Rightarrow> PriceLevel \<Rightarrow> PriceLevel" where
  "PriceLevel_erase ptr level =
     (if ptr \<in> set (mm_orders level) then level\<lparr> mm_orders := remove1 ptr (mm_orders level) \<rparr>
      else level\<lparr> regular_orders := remove1 ptr (regular_orders level) \<rparr>)"

text \<open>The orders of a level in the order in which matching consumes them.\<close>

definition PriceLevel_queue :: "PriceLevel \<Rightarrow> nat list" where
  "PriceLevel_queue level = mm_orders level @ regular_orders level"

record Stats =
  totalOrders :: nat
  totalTrades :: nat
  totalVolumes :: nat
  totalCancelledOrders :: nat
  totalIOC_rejected :: nat
  totalStopTriggered :: nat
  totalRiskRejected :: nat

text \<open>
  The state of an \<open>OrderBook\<close>. \<open>bids\<close> is kept in descending and \<open>asks\<close> in ascending
  order of price. The tick table of a book is the default one and never changes. The
  risk manager is not modelled: the verdict of \<open>check_order\<close>, which depends on floating
  point arithmetic and on the clock, is an argument of \<open>add_order\<close>, and the two
  \<open>update_position\<close> calls of every \<open>execute_trade\<close> are recorded in
  \<open>position_updates\<close> as the buyer's owner id, the seller's owner id and the trade.
\<close>

record OrderBook =
  bids :: "(int \<times> PriceLevel) list"
  asks :: "(int \<times> PriceLevel) list"
  orders :: "nat \<rightharpoonup> nat"
  order_pool :: OrderPool
  stop_manager :: StopOrderManager
  processing_stops :: "nat set"
  stop_cascade_depth :: int
  stats :: Stats
  position_updates :: "(nat \<times> nat \<times> Trade) list"

definition MAX_CASCADE_DEPTH :: int where
  "MAX_CASCADE_DEPTH = 3"

text \<open>The constructor, with the size of the order pool as its argument (2000000 in the source).\<close>

definition OrderBook_new :: "nat \<Rightarrow> OrderBook" where
  "OrderBook_new n =
     \<lparr> bids = [], asks = [], orders = Map.empty, order_pool = ObjectPool n,
       stop_manager = StopOrderManager_empty, processing_stops = {},
       stop_cascade_depth = 0,
       stats = \<lparr> totalOrders = 0, totalTrades = 0, totalVolumes = 0,
                 totalCancelledOrders = 0, totalIOC_rejected = 0,
                 totalStopTriggered = 0, totalRiskRejected = 0 \<rparr>,
       position_updates = [] \<rparr>"

text \<open>\<open>deref s ptr\<close> is the object that the pointer designates; \<open>upd_order\<close> assigns through it.\<close>

definition deref :: "OrderBook \<Rightarrow> nat \<Rightarrow> Order" where
  "deref s ptr = pool (order_pool s) ! ptr"

definition upd_order :: "nat \<Rightarrow> (Order \<Rightarrow> Order) \<Rightarrow> OrderBook \<Rightarrow> OrderBook" where
  "upd_order ptr f s =
     s\<lparr> order_pool := (order_pool s)\<lparr> pool := (pool (order_pool s))[ptr := f (deref s ptr)] \<rparr> \<rparr>"

definition release_order :: "nat \<Rightarrow> OrderBook \<Rightarrow> OrderBook" where
  "release_order ptr s = s\<lparr> order_pool := release (Some ptr) (order_pool s) \<rparr>"

definition erase_order_id :: "nat \<Rightarrow> OrderBook \<Rightarrow> OrderBook" where
  "erase_order_id i s = s\<lparr> orders := (orders s)(i := None) \<rparr>"

text \<open>
  The book of a side with its comparator, and the book opposite to a side. The source
  writes the matching loops twice, once for each side; the model takes the side as an
  argument.
\<close>

definition side_lt :: "Side \<Rightarrow> int \<Rightarrow> int \<Rightarrow> bool" where
  "side_lt sd = (if sd = BUY then (>) else (<))"

definition side_book :: "Side \<Rightarrow> OrderBook \<Rightarrow> (int \<times> PriceLevel) list" where
  "side_book sd s = (if sd = BUY then bids s else asks s)"

definition set_side_book :: "Side \<Rightarrow> (int \<times> PriceLevel) list \<Rightarrow> OrderBook \<Rightarrow> OrderBook" where
  "set_side_book sd m s = (if sd = BUY then s\<lparr> bids := m \<rparr> else s\<lparr> asks := m \<rparr>)"

definition other_side :: "Side \<Rightarrow> Side" where
  "other_side sd = (if sd = BUY then SELL else BUY)"

text \<open>Assignment to the level of an existing map node.\<close>

definition map_put :: "'k \<Rightarrow> 'v \<Rightarrow> ('k \<times> 'v) list \<Rightarrow> ('k \<times> 'v) list" where
  "map_put k v m = map (\<lambda>kv. if fst kv = k then (k, v) else kv) m"

definition execute_trade :: "nat \<Rightarrow> nat \<Rightarrow> int \<Rightarrow> OrderBook \<Rightarrow> Trade \<times> OrderBook" where
  "execute_trade aggressive passive qty s =
     (let a = deref s aggressive;
          p = deref s passive;
          trade = \<lparr> buy_id = (if side a = BUY then order_id a else order_id p),
                    sell_id = (if side a = SELL then order_id a else order_id p),
                    trade_price = price p,
                    trade_quantity = qty \<rparr>;
          buyer_id = (if side a = BUY then ownerID a else ownerID p);
          seller_id = (if side a = SELL then ownerID a else ownerID p)
      in (trade, s\<lparr> position_updates := position_updates s @ [(buyer_id, seller_id, trade)] \<rparr>))"

definition handle_iceberg_refill ::
  "nat \<Rightarrow> PriceLevel \<Rightarrow> Order list \<Rightarrow> bool \<times> PriceLevel \<times> Order list" where
  "handle_iceberg_refill ptr level mem =
     (let order = mem ! ptr
      in if otype order = ICEBERG \<and> remaining order > 0
         then
           (let order1 = order\<lparr> display := min (remaining order) (display_size order) \<rparr>;
                order2 = order1\<lparr> remaining := wrap64 (remaining order1 - display order1) \<rparr>;
                mem' = mem[ptr := order2]
            in (True, PriceLevel_add_order mem' ptr level, mem'))
         else (False, level, mem))"

definition cleanup_empty_level :: "int \<Rightarrow> (int \<times> PriceLevel) list \<Rightarrow> (int \<times> PriceLevel) list" where
  "cleanup_empty_level p book =
     (case map_find p book of
        None \<Rightarrow> book
      | Some level \<Rightarrow> if PriceLevel_empty level then map_erase p book else book)"

section \<open>order\_book.cpp\<close>

definition cancel_order :: "nat \<Rightarrow> OrderBook \<Rightarrow> bool \<times> OrderBook" where
  "cancel_order i s =
     (case orders s i of
        None \<Rightarrow> (False, s)
      | Some ptr \<Rightarrow>
          (let order = deref s ptr;
               s1 =
                 (if otype order = STOP_LOSS
                  then s\<lparr> stop_manager :=
                            snd (remove_stop_order (pool (order_pool s)) i (stop_manager s)) \<rparr>
                  else
                    (case map_find (price order) (side_book (side order) s) of
                       None \<Rightarrow> s
                     | Some level \<Rightarrow>
                         (let level' = PriceLevel_erase ptr level
                          in if PriceLevel_empty level'
                             then set_side_book (side order)
                                    (map_erase (price order) (side_book (side order) s)) s
                             else set_side_book (side order)
                                    (map_put (price order) level' (side_book (side order) s)) s)));
               s2 = erase_order_id i s1;
               s3 = release_order ptr s2
           in (True, s3\<lparr> stats := (stats s3)\<lparr> totalCancelledOrders :=
                                       (totalCancelledOrders (stats s3) + 1) mod 2 ^ 64 \<rparr> \<rparr>)))"

text \<open>
  The front passive order has been filled down to \<open>display = 0\<close>: it is popped, refilled
  if it is an iceberg with a remainder, and erased from the index and released otherwise.
  \<open>level\<close> is the level at \<open>best_price\<close> in the book opposite to the incoming side.
\<close>

definition retire_front :: "Side \<Rightarrow> int \<Rightarrow> PriceLevel \<Rightarrow> nat \<Rightarrow> OrderBook \<Rightarrow> OrderBook" where
  "retire_front sd best_price level passive s =
     (case handle_iceberg_refill passive (PriceLevel_pop_front level) (pool (order_pool s)) of
        (order_refilled, level', mem') \<Rightarrow>
          (let s1 = s\<lparr> order_pool := (order_pool s)\<lparr> pool := mem' \<rparr> \<rparr>;
               s2 = set_side_book (other_side sd)
                      (map_put best_price level' (side_book (other_side sd) s1)) s1
           in if order_refilled then s2
              else release_order passive (erase_order_id (order_id (deref s2 passive)) s2)))"

text \<open>
  One match of the incoming order against the front passive order of another owner. The
  limit loop decrements the incoming order first and the market loop the passive order
  first; the two pointers differ, as the owners do.
\<close>

definition fill_front ::
  "Side \<Rightarrow> nat \<Rightarrow> int \<Rightarrow> PriceLevel \<Rightarrow> nat \<Rightarrow> Trade list \<Rightarrow> OrderBook \<Rightarrow> Trade list \<times> OrderBook" where
  "fill_front sd order_ptr best_price level passive trades s =
     (let match_qty = min (display (deref s order_ptr)) (display (deref s passive))
      in case execute_trade order_ptr passive match_qty s of
           (trade, s1) \<Rightarrow>
             (let s2 = upd_order order_ptr (\<lambda>ord. ord\<lparr> display := wrap64 (display ord - match_qty) \<rparr>) s1;
                  s3 = upd_order passive (\<lambda>ord. ord\<lparr> display := wrap64 (display ord - match_qty) \<rparr>) s2;
                  s4 = upd_order passive (\<lambda>ord. ord\<lparr> remaining := wrap64 (remaining ord - match_qty) \<rparr>) s3
              in (trades @ [trade],
                  if display (deref s4 passive) = 0
                  then retire_front sd best_price level passive s4 else s4)))"

text \<open>
  Self-trade prevention. Both loops pop the passive order; the limit loop then calls
  \<open>cancel_order\<close> with its id, the market loop erases the id and releases the slot.
\<close>

definition self_trade :: "bool \<Rightarrow> Side \<Rightarrow> int \<Rightarrow> PriceLevel \<Rightarrow> nat \<Rightarrow> OrderBook \<Rightarrow> OrderBook" where
  "self_trade is_limit sd best_price level passive s =
     (let s1 = set_side_book (other_side sd)
                 (map_put best_price (PriceLevel_pop_front level) (side_book (other_side sd) s)) s
      in if is_limit then snd (cancel_order (order_id (deref s1 passive)) s1)
         else release_order passive (erase_order_id (order_id (deref s1 passive)) s1))"

text \<open>
  The inner loop over one level. The loops of the source can run forever (an iceberg with
  \<open>display_size = 0\<close> is refilled with nothing again and again), so the model counts
  iterations down from \<open>fuel\<close> and returns \<open>None\<close> when they are used up. \<open>level\<close> is a
  reference to the map node at \<open>best_price\<close>; when \<open>cancel_order\<close> has erased that node
  the reference dangles, and the model reads the erased level as empty.
\<close>

fun match_level ::
  "nat \<Rightarrow> bool \<Rightarrow> Side \<Rightarrow> nat \<Rightarrow> int \<Rightarrow> Trade list \<Rightarrow> OrderBook \<Rightarrow> (Trade list \<times> OrderBook) option" where
  "match_level 0 is_limit sd order_ptr best_price trades s = None"
| "match_level (Suc fuel) is_limit sd order_ptr best_price trades s =
     (case map_find best_price (side_book (other_side sd) s) of
        None \<Rightarrow> Some (trades, s)
      | Some level \<Rightarrow>
          if display (deref s order_ptr) > 0 \<and> \<not> PriceLevel_empty level
          then
            (let passive = PriceLevel_front level
             in if ownerID (deref s order_ptr) = ownerID (deref s passive)
                then match_level fuel is_limit sd order_ptr best_price trades
                       (self_trade is_limit sd best_price level passive s)
                else (case fill_front sd order_ptr best_price level passive trades s of
                        (trades', s') \<Rightarrow>
                          match_level fuel is_limit sd order_ptr best_price trades' s'))
          else Some (trades, s))"

text \<open>
  The outer loop over the opposite book; \<open>limit\<close> is \<open>Some price\<close> with the \<open>price\<close>
  argument of \<open>add_order\<close> in the limit path and \<open>None\<close> in \<open>add_market_order\<close>.
\<close>

definition price_break :: "int option \<Rightarrow> Side \<Rightarrow> int \<Rightarrow> bool" where
  "price_break limit sd best_price =
     (case limit of
        None \<Rightarrow> False
      | Some p \<Rightarrow> if sd = BUY then p < best_price else p > best_price)"

fun match_book ::
  "nat \<Rightarrow> int option \<Rightarrow> Side \<Rightarrow> nat \<Rightarrow> Trade list \<Rightarrow> OrderBook \<Rightarrow> (Trade list \<times> OrderBook) option" where
  "match_book 0 limit sd order_ptr trades s = None"
| "match_book (Suc fuel) limit sd order_ptr trades s =
     (if display (deref s order_ptr) > 0 \<and> side_book (other_side sd) s \<noteq> []
      then
        (let best_price = fst (hd (side_book (other_side sd) s))
         in if price_break limit sd best_price then Some (trades, s)
            else (case match_level fuel (limit \<noteq> None) sd order_ptr best_price trades s of
                    None \<Rightarrow> None
                  | Some (trades', s') \<Rightarrow>
                      match_book fuel limit sd order_ptr trades'
                        (set_side_book (other_side sd)
                           (cleanup_empty_level best_price (side_book (other_side sd) s')) s')))
      else Some (trades, s))"

definition add_market_order ::
  "nat \<Rightarrow> nat \<Rightarrow> Trade list \<Rightarrow> OrderBook \<Rightarrow> (Trade list \<times> OrderBook) option" where
  "add_market_order fuel order_ptr trades s =
     match_book fuel None (side (deref s order_ptr)) order_ptr trades s"

text \<open>The probe of \<open>add_FOK_order\<close>: the lambda \<open>check_orders\<close> and the loop over the levels.\<close>

fun check_orders ::
  "Order list \<Rightarrow> nat \<Rightarrow> nat list \<Rightarrow> int \<Rightarrow> (nat \<times> int) list \<Rightarrow> bool \<times> int \<times> (nat \<times> int) list" where
  "check_orders mem order_ptr [] needed candidates = (False, needed, candidates)"
| "check_orders mem order_ptr (passive # rest) needed candidates =
     (if ownerID (mem ! order_ptr) = ownerID (mem ! passive)
      then check_orders mem order_ptr rest needed candidates
      else
        (let available = min needed (display (mem ! passive));
             candidates' = candidates @ [(passive, available)];
             needed' = wrap64 (needed - available)
         in if needed' \<le> 0 then (True, needed', candidates')
            else check_orders mem order_ptr rest needed' candidates'))"

fun probe_levels ::
  "Order list \<Rightarrow> nat \<Rightarrow> (int \<times> PriceLevel) list \<Rightarrow> int \<Rightarrow> (nat \<times> int) list \<Rightarrow> int \<times> (nat \<times> int) list" where
  "probe_levels mem order_ptr [] needed candidates = (needed, candidates)"
| "probe_levels mem order_ptr ((price_level, level) # rest) needed candidates =
     (if (if side (mem ! order_ptr) = BUY then price_level > price (mem ! order_ptr)
          else price_level < price (mem ! order_ptr))
      then (needed, candidates)
      else
        (case check_orders mem order_ptr (mm_orders level) needed candidates of
           (done, needed1, candidates1) \<Rightarrow>
             (case (if \<not> done \<and> needed1 > 0
                    then snd (check_orders mem order_ptr (regular_orders level) needed1 candidates1)
                    else (needed1, candidates1)) of
                (needed2, candidates2) \<Rightarrow>
                  if needed2 \<le> 0 then (needed2, candidates2)
                  else probe_levels mem order_ptr rest needed2 candidates2)))"

definition FOK_probe :: "nat \<Rightarrow> OrderBook \<Rightarrow> int \<times> (nat \<times> int) list" where
  "FOK_probe order_ptr s =
     probe_levels (pool (order_pool s)) order_ptr
       (side_book (other_side (side (deref s order_ptr))) s)
       (quantity (deref s order_ptr)) []"

text \<open>
  The commit of \<open>add_FOK_order\<close> for one candidate. When the passive order is used up, its
  level is looked up with \<open>operator[]\<close> under its own price; the price and side under
  which an empty level is erased are read after the order may have been released.
\<close>

definition FOK_retire :: "nat \<Rightarrow> OrderBook \<Rightarrow> OrderBook" where
  "FOK_retire passive s =
     (let sd = side (deref s passive);
          p = price (deref s passive);
          level0 = (case map_find p (side_book sd s) of None \<Rightarrow> PriceLevel_new | Some l \<Rightarrow> l)
      in case handle_iceberg_refill passive (PriceLevel_erase passive level0) (pool (order_pool s)) of
           (order_refilled, level', mem') \<Rightarrow>
             (let s1 = s\<lparr> order_pool := (order_pool s)\<lparr> pool := mem' \<rparr> \<rparr>;
                  s2 = set_side_book sd
                         (map_at (side_lt sd) p PriceLevel_new (\<lambda>_. level') (side_book sd s1)) s1;
                  s3 = (if order_refilled then s2
                        else release_order passive (erase_order_id (order_id (deref s2 passive)) s2))
              in if PriceLevel_empty level'
                 then set_side_book (side (deref s3 passive))
                        (map_erase (price (deref s3 passive))
                           (side_book (side (deref s3 passive)) s3)) s3
                 else s3))"

definition FOK_fill :: "nat \<Rightarrow> nat \<times> int \<Rightarrow> Trade list \<times> OrderBook \<Rightarrow> Trade list \<times> OrderBook" where
  "FOK_fill order_ptr cand acc =
     (case (cand, acc) of
        ((passive, qty), (trades, s)) \<Rightarrow>
          (case execute_trade order_ptr passive qty s of
             (trade, s1) \<Rightarrow>
               (let s2 = upd_order passive (\<lambda>ord. ord\<lparr> display := wrap64 (display ord - qty) \<rparr>) s1;
                    s3 = upd_order passive (\<lambda>ord. ord\<lparr> remaining := wrap64 (remaining ord - qty) \<rparr>) s2;
                    s4 = upd_order order_ptr (\<lambda>ord. ord\<lparr> display := wrap64 (display ord - qty) \<rparr>) s3;
                    s5 = upd_order order_ptr (\<lambda>ord. ord\<lparr> remaining := wrap64 (remaining ord - qty) \<rparr>) s4
                in (trades @ [trade],
                    if display (deref s5 passive) = 0 then FOK_retire passive s5 else s5))))"

definition add_FOK_order :: "nat \<Rightarrow> Trade list \<Rightarrow> OrderBook \<Rightarrow> bool \<times> Trade list \<times> OrderBook" where
  "add_FOK_order order_ptr trades s =
     (case FOK_probe order_ptr s of
        (needed, candidates) \<Rightarrow>
          if needed > 0 then (False, trades, s)
          else (case fold (FOK_fill order_ptr) candidates (trades, s) of
                  (trades', s') \<Rightarrow> (True, trades', s')))"

text \<open>
  \<open>process_triggered_stops\<close>: the loop over the triggered stops. The id under which the
  stop leaves \<open>processing_stops\<close> is read after the slot has been released.
\<close>

fun process_stop_list ::
  "nat \<Rightarrow> nat list \<Rightarrow> Trade list \<Rightarrow> OrderBook \<Rightarrow> (Trade list \<times> OrderBook) option" where
  "process_stop_list fuel [] trades s = Some (trades, s)"
| "process_stop_list fuel (stop_order # rest) trades s =
     (if order_id (deref s stop_order) \<in> processing_stops s
      then process_stop_list fuel rest trades s
      else
        (let s1 = s\<lparr> processing_stops := insert (order_id (deref s stop_order)) (processing_stops s),
                      stop_cascade_depth := stop_cascade_depth s + 1,
                      stats := (stats s)\<lparr> totalStopTriggered :=
                                  (totalStopTriggered (stats s) + 1) mod 2 ^ 64 \<rparr> \<rparr>;
             s2 = upd_order stop_order
                    (\<lambda>ord. ord\<lparr> otype := MARKET, price := 0, is_triggered := True \<rparr>) s1
         in case add_market_order fuel stop_order [] s2 of
              None \<Rightarrow> None
            | Some (stop_trades, s3) \<Rightarrow>
                (let s4 = erase_order_id (order_id (deref s3 stop_order)) s3;
                     s5 = release_order stop_order s4;
                     s6 = s5\<lparr> processing_stops :=
                                 processing_stops s5 - {order_id (deref s5 stop_order)},
                               stop_cascade_depth := stop_cascade_depth s5 - 1 \<rparr>
                 in process_stop_list fuel rest (trades @ stop_trades) s6)))"

definition process_triggered_stops ::
  "nat \<Rightarrow> Trade list \<Rightarrow> OrderBook \<Rightarrow> (Trade list \<times> OrderBook) option" where
  "process_triggered_stops fuel trades s =
     (if trades = [] then Some (trades, s)
      else if stop_cascade_depth s \<ge> MAX_CASCADE_DEPTH then Some (trades, s)
      else
        (case check_triggered_stops (pool (order_pool s)) (trade_price (last trades))
                (stop_manager s) of
           (triggered_stops, sm') \<Rightarrow>
             process_stop_list fuel triggered_stops trades (s\<lparr> stop_manager := sm' \<rparr>)))"

definition add_trade_stats :: "Trade list \<Rightarrow> OrderBook \<Rightarrow> OrderBook" where
  "add_trade_stats trades s =
     s\<lparr> stats := (stats s)
          \<lparr> totalTrades := (totalTrades (stats s) + length trades) mod 2 ^ 64,
            totalVolumes :=
              nat ((int (totalVolumes (stats s)) + sum_list (map trade_quantity trades)) mod 2 ^ 64) \<rparr> \<rparr>"

text \<open>
  The first part of \<open>add_order\<close>: the order counter, the acquired slot, the order
  constructed in it and the prices rounded to ticks. \<open>now\<close> is the clock and \<open>mm\<close> the
  uninitialised \<open>is_market_maker\<close>.
\<close>

definition round_if_positive :: "int \<Rightarrow> int" where
  "round_if_positive p =
     (let rounded = round_to_tick default_rules p in if rounded > 0 then rounded else p)"

definition add_order_init ::
  "int \<Rightarrow> bool \<Rightarrow> nat \<Rightarrow> Side \<Rightarrow> int \<Rightarrow> int \<Rightarrow> int \<Rightarrow> int \<Rightarrow> OrderType \<Rightarrow> nat \<Rightarrow> int \<Rightarrow> nat
     \<Rightarrow> OrderBook \<Rightarrow> nat \<times> OrderBook" where
  "add_order_init now mm i sd p qty disp dsize ty owner sp sess s =
     (let s0 = s\<lparr> stats := (stats s)\<lparr> totalOrders := (totalOrders (stats s) + 1) mod 2 ^ 64 \<rparr> \<rparr>
      in case acquire (order_pool s0) of
           (order_ptr, P) \<Rightarrow>
             (let s1 = s0\<lparr> order_pool := P \<rparr>;
                  s2 = upd_order order_ptr (\<lambda>_. Order_new i sd p sp qty disp dsize ty owner sess now mm) s1;
                  s3 = (if ty \<noteq> MARKET \<and> p > 0
                        then upd_order order_ptr (\<lambda>ord. ord\<lparr> price := round_if_positive p \<rparr>) s2
                        else s2);
                  s4 = (if sp > 0
                        then upd_order order_ptr (\<lambda>ord. ord\<lparr> stop_price := round_if_positive sp \<rparr>) s3
                        else s3)
              in (order_ptr, s4)))"

text \<open>
  \<open>add_order\<close>. \<open>approved\<close> is the verdict of the risk manager on an order that is not a
  stop order (stop orders are always approved).
\<close>

definition add_order ::
  "nat \<Rightarrow> bool \<Rightarrow> int \<Rightarrow> bool \<Rightarrow> nat \<Rightarrow> Side \<Rightarrow> int \<Rightarrow> int \<Rightarrow> int \<Rightarrow> int \<Rightarrow> OrderType \<Rightarrow> nat \<Rightarrow> int \<Rightarrow> nat
     \<Rightarrow> OrderBook \<Rightarrow> (Trade list \<times> OrderBook) option" where
  "add_order fuel approved now mm i sd p qty disp dsize ty owner sp sess s =
     (case add_order_init now mm i sd p qty disp dsize ty owner sp sess s of
        (order_ptr, s1) \<Rightarrow>
          if \<not> (ty = STOP_LOSS \<or> approved)
          then
            (let s2 = release_order order_ptr s1
             in Some ([], s2\<lparr> stats := (stats s2)\<lparr> totalRiskRejected :=
                                         (totalRiskRejected (stats s2) + 1) mod 2 ^ 64 \<rparr> \<rparr>))
          else if ty = STOP_LOSS
          then
            (let s2 = s1\<lparr> stop_manager :=
                           add_stop_order (pool (order_pool s1)) order_ptr (stop_manager s1) \<rparr>
             in Some ([], s2\<lparr> orders := (orders s2)(i \<mapsto> order_ptr) \<rparr>))
          else if ty = FOK
          then
            (case add_FOK_order order_ptr [] s1 of
               (filled, trades, s2) \<Rightarrow>
                 (let s3 = (if filled then add_trade_stats trades s2 else s2);
                      s4 = release_order order_ptr s3
                  in process_triggered_stops fuel trades s4))
          else if ty = MARKET
          then
            (case add_market_order fuel order_ptr [] s1 of
               None \<Rightarrow> None
             | Some (trades, s2) \<Rightarrow>
                 (let s3 = add_trade_stats trades s2;
                      s4 = release_order order_ptr s3
                  in process_triggered_stops fuel trades s4))
          else
            (case match_book fuel (Some p) sd order_ptr [] s1 of
               None \<Rightarrow> None
             | Some (trades, s2) \<Rightarrow>
                 (let s3 =
                        (if display (deref s2 order_ptr) > 0 \<and> (ty = GTC \<or> ty = ICEBERG)
                         then
                           (let s' = set_side_book sd
                                       (map_at (side_lt sd) p PriceLevel_new
                                          (PriceLevel_add_order (pool (order_pool s2)) order_ptr)
                                          (side_book sd s2)) s2
                            in s'\<lparr> orders := (orders s')(i \<mapsto> order_ptr) \<rparr>)
                         else release_order order_ptr s2)
                  in case process_triggered_stops fuel trades s3 of
                       None \<Rightarrow> None
                     | Some (trades', s4) \<Rightarrow> Some (trades', add_trade_stats trades' s4))))"

section \<open>Invariants and example books\<close>

text \<open>
  The objects on the stack of free objects are objects of the pool, the pool's objects
  are numbered from 0, and the count of allocated objects fits its type. The constructor
  establishes this, and \<open>acquire\<close> keeps it.
\<close>

definition pool_wf :: "OrderPool \<Rightarrow> bool" where
  "pool_wf P \<longleftrightarrow>
     set (available P) \<subseteq> valid_objects P
     \<and> valid_objects P = {0..<length (pool P)}
     \<and> allocated_count P < 2 ^ 64"

text \<open>The order that \<open>add_order\<close> leaves in the acquired slot before the risk check.\<close>

definition placed_order ::
  "int \<Rightarrow> bool \<Rightarrow> nat \<Rightarrow> Side \<Rightarrow> int \<Rightarrow> int \<Rightarrow> int \<Rightarrow> int \<Rightarrow> OrderType \<Rightarrow> nat \<Rightarrow> int \<Rightarrow> nat \<Rightarrow> Order" where
  "placed_order now mm i sd p qty disp dsize ty owner sp sess =
     (Order_new i sd p sp qty disp dsize ty owner sess now mm)
       \<lparr> price := (if ty \<noteq> MARKET \<and> p > 0 then round_if_positive p else p),
         stop_price := (if sp > 0 then round_if_positive sp else sp) \<rparr>"

text \<open>A book is sorted by its comparator, as a \<open>std::map\<close> is.\<close>

definition book_sorted :: "Side \<Rightarrow> (int \<times> PriceLevel) list \<Rightarrow> bool" where
  "book_sorted sd m \<longleftrightarrow> sorted_wrt (side_lt sd) (map fst m)"

text \<open>All orders that rest in a book, level by level.\<close>

definition book_orders :: "(int \<times> PriceLevel) list \<Rightarrow> nat list" where
  "book_orders m = concat (map (\<lambda>kv. PriceLevel_queue (snd kv)) m)"

text \<open>
  Sequences of calls: \<open>step f so\<close> is the book after the call \<open>f\<close> on the book \<open>so\<close>, and
  \<open>traded f so\<close> is the list of trades that the call returns.
\<close>

definition step :: "(OrderBook \<Rightarrow> (Trade list \<times> OrderBook) option) \<Rightarrow> OrderBook option \<Rightarrow> OrderBook option" where
  "step f so = (case so of None \<Rightarrow> None | Some s \<Rightarrow> map_option snd (f s))"

definition traded :: "(OrderBook \<Rightarrow> (Trade list \<times> OrderBook) option) \<Rightarrow> OrderBook option \<Rightarrow> Trade list option" where
  "traded f so = (case so of None \<Rightarrow> None | Some s \<Rightarrow> map_option fst (f s))"

text \<open>
  A book of four pool objects with a resting bid (id 7, 10 at 100, owner 1) and a resting
  ask (id 8, 5 at 200, owner 2); it is the book after these two orders have been added
  to a new book.
\<close>

definition two_sided_book :: OrderBook where
  "two_sided_book =
     \<lparr> bids = [(100, \<lparr> mm_orders = [], regular_orders = [3] \<rparr>)],
       asks = [(200, \<lparr> mm_orders = [], regular_orders = [2] \<rparr>)],
       orders = [7 \<mapsto> 3, 8 \<mapsto> 2],
       order_pool =
         \<lparr> pool = [Order_default, Order_default,
                    Order_new 8 SELL 200 0 5 5 0 GTC 2 0 0 False,
                    Order_new 7 BUY 100 0 10 10 0 GTC 1 0 0 False],
           available = [1, 0], pool_size = 4, allocated_count = 2,
           valid_objects = {0, 1, 2, 3} \<rparr>,
       stop_manager = StopOrderManager_empty, processing_stops = {},
       stop_cascade_depth = 0,
       stats = \<lparr> totalOrders = 2, totalTrades = 0, totalVolumes = 0,
                 totalCancelledOrders = 0, totalIOC_rejected = 0,
                 totalStopTriggered = 0, totalRiskRejected = 0 \<rparr>,
       position_updates = [] \<rparr>"

text \<open>A new book after a GTC bid at 100002, a price between two ticks.\<close>

definition misaligned_bid :: "OrderBook option" where
  "misaligned_bid =
     step (add_order 4 True 0 False 1 BUY 100002 10 10 0 GTC 1 0 0) (Some (OrderBook_new 4))"

text \<open>Four sell stops with trigger price 100 and a resting bid of 10 at 100.\<close>

definition four_stops_book :: "OrderBook option" where
  "four_stops_book =
     step (add_order 4 True 0 False 5 BUY 100 10 10 0 GTC 20 0 0)
       (step (add_order 4 True 0 False 4 SELL 0 1 1 0 STOP_LOSS 14 100 0)
       (step (add_order 4 True 0 False 3 SELL 0 1 1 0 STOP_LOSS 13 100 0)
       (step (add_order 4 True 0 False 2 SELL 0 1 1 0 STOP_LOSS 12 100 0)
       (step (add_order 4 True 0 False 1 SELL 0 1 1 0 STOP_LOSS 11 100 0)
          (Some (OrderBook_new 6))))))"

text \<open>
  An iceberg ask (id 1, 20 at 100002, slices of 5) and a regular ask (id 2, 5 at 100002)
  behind it; 100002 is between two ticks. The second book holds the same two orders at
  100000.
\<close>

definition unaligned_iceberg_book :: "OrderBook option" where
  "unaligned_iceberg_book =
     step (add_order 4 True 0 False 2 SELL 100002 5 5 0 GTC 2 0 0)
       (step (add_order 4 True 0 False 1 SELL 100002 20 5 5 ICEBERG 1 0 0)
          (Some (OrderBook_new 6)))"

definition aligned_iceberg_book :: "OrderBook option" where
  "aligned_iceberg_book =
     step (add_order 4 True 0 False 2 SELL 100000 5 5 0 GTC 2 0 0)
       (step (add_order 4 True 0 False 1 SELL 100000 20 5 5 ICEBERG 1 0 0)
          (Some (OrderBook_new 6)))"

text \<open>
  An iceberg ask (id 1, 20 at 100) with \<open>display_size = -1\<close>, after a bid of 5 at 100 has
  consumed its first slice.
\<close>

definition negative_display_book :: "OrderBook option" where
  "negative_display_book =
     step (add_order 4 True 0 False 2 BUY 100 5 5 0 GTC 2 0 0)
       (step (add_order 4 True 0 False 1 SELL 100 20 5 (- 1) ICEBERG 1 0 0)
          (Some (OrderBook_new 4)))"

text \<open>
  \<open>execute_trade\<close> reports every trade to the risk manager with the owner of the buying
  and the owner of the selling order. A list of such reports is free of self-trades when
  the two owners differ in each of them.
\<close>

definition no_self_trade :: "(nat \<times> nat \<times> Trade) list \<Rightarrow> bool" where
  "no_self_trade us \<longleftrightarrow> list_all (\<lambda>u. fst u \<noteq> fst (snd u)) us"

text \<open>
  Two asks of 5 at 100: id 1 of owner 7 in object 4 at the front of the level, and id 2
  of owner 8 in object 3 behind it. The other two books are this book after \<open>add_order\<close>
  has set up a bid of owner 7 for 5 at 100 in object 2, as a GTC and as a FOK order.
\<close>

definition self_trade_book :: OrderBook where
  "self_trade_book =
     (OrderBook_new 0)
       \<lparr> asks := [(100, \<lparr> mm_orders = [], regular_orders = [4, 3] \<rparr>)],
         orders := [1 \<mapsto> 4, 2 \<mapsto> 3],
         order_pool :=
           \<lparr> pool = [Order_default, Order_default, Order_default,
                      Order_new 2 SELL 100 0 5 5 0 GTC 8 0 0 False,
                      Order_new 1 SELL 100 0 5 5 0 GTC 7 0 0 False],
             available = [2, 1, 0], pool_size = 5, allocated_count = 2,
             valid_objects = {0, 1, 2, 3, 4} \<rparr> \<rparr>"

definition self_trade_limit_book :: OrderBook where
  "self_trade_limit_book =
     snd (add_order_init 0 False 9 BUY 100 5 5 0 GTC 7 0 0 self_trade_book)"

definition self_trade_FOK_book :: OrderBook where
  "self_trade_FOK_book =
     snd (add_order_init 0 False 9 BUY 100 5 5 0 FOK 7 0 0 self_trade_book)"

(* THEOREMS *)

section \<open>Facts about the tick table\<close>

lemma wrap64_id: "- (2 ^ 63) \<le> x \<Longrightarrow> x < 2 ^ 63 \<Longrightarrow> wrap64 x = x"
  by (simp add: wrap64_def)

lemma sdiv_nonneg: "0 \<le> (x::int) \<Longrightarrow> 0 < y \<Longrightarrow> x sdiv y = x div y"
  by (simp add: signed_divide_int_def sgn_if)

lemma round_mult_fix:
  fixes q :: int
  assumes "0 < t" "0 \<le> h" "h < t"
  shows "(q * t + h) div t * t = q * t"
  using assms by simp

lemma TickSizeTable_default: "TickSizeTable = Inr default_rules"
  by (simp add: TickSizeTable_def add_rule_def default_rules_def LLONG_MAX_def)

text \<open>With the default bands, \<open>round_to_tick\<close> band by band, as long as nothing overflows.\<close>

lemma round_default_unit:
  assumes "0 < p" "p \<le> 99999"
  shows "round_to_tick default_rules p = p"
  using assms
  by (simp add: round_to_tick_def default_rules_def LLONG_MAX_def wrap64_id sdiv_nonneg)

lemma round_default_5:
  assumes "100000 \<le> p" "p \<le> 499999"
  shows "round_to_tick default_rules p = (p + 2) div 5 * 5"
  using assms
  by (simp add: round_to_tick_def default_rules_def LLONG_MAX_def wrap64_id sdiv_nonneg)

lemma round_default_10:
  assumes "500000 \<le> p" "p \<le> 999999"
  shows "round_to_tick default_rules p = (p + 5) div 10 * 10"
  using assms
  by (simp add: round_to_tick_def default_rules_def LLONG_MAX_def wrap64_id sdiv_nonneg)

lemma round_default_100:
  assumes "1000000 \<le> p" "p \<le> 9223372036854775757"
  shows "round_to_tick default_rules p = (p + 50) div 100 * 100"
proof -
  have a: "wrap64 (p + 50) = p + 50"
    using assms by (intro wrap64_id) simp_all
  have b: "(p + 50) sdiv 100 = (p + 50) div 100"
    using assms by (intro sdiv_nonneg) simp_all
  have c: "wrap64 ((p + 50) div 100 * 100) = (p + 50) div 100 * 100"
    using assms by (intro wrap64_id) simp_all
  show ?thesis
    using assms
    by (simp add: round_to_tick_def default_rules_def LLONG_MAX_def a b c sdiv_nonneg)
qed

lemma round_default_nonpos: "p \<le> 0 \<Longrightarrow> round_to_tick default_rules p = 0"
  by (simp add: round_to_tick_def)

lemma round_default_idem:
  assumes "p < 9223372036854775750"
  shows "round_to_tick default_rules (round_to_tick default_rules p)
           = round_to_tick default_rules p"
proof -
  consider "p \<le> 0" | "0 < p" "p \<le> 99999" | "100000 \<le> p" "p \<le> 499997"
    | "499998 \<le> p" "p \<le> 499999" | "500000 \<le> p" "p \<le> 999994"
    | "999995 \<le> p" "p \<le> 999999" | "1000000 \<le> p"
    by linarith
  then show ?thesis
  proof cases
    case 1
    then show ?thesis by (simp add: round_default_nonpos)
  next
    case 2
    then show ?thesis by (simp add: round_default_unit)
  next
    case 3
    let ?r = "(p + 2) div 5 * 5"
    have r: "round_to_tick default_rules p = ?r"
      using 3 by (simp add: round_default_5)
    have "20000 \<le> (p + 2) div 5" "(p + 2) div 5 \<le> 99999" using 3 by linarith+
    then have "100000 \<le> ?r" "?r \<le> 499999" by linarith+
    then have "round_to_tick default_rules ?r = (?r + 2) div 5 * 5"
      by (rule round_default_5)
    also have "\<dots> = ?r" by (rule round_mult_fix) simp_all
    finally show ?thesis by (simp add: r)
  next
    case 4
    have r: "round_to_tick default_rules p = 500000"
      using 4 by (simp add: round_default_5)
    show ?thesis by (simp add: r round_default_10)
  next
    case 5
    let ?r = "(p + 5) div 10 * 10"
    have r: "round_to_tick default_rules p = ?r"
      using 5 by (simp add: round_default_10)
    have "50000 \<le> (p + 5) div 10" "(p + 5) div 10 \<le> 99999" using 5 by linarith+
    then have "500000 \<le> ?r" "?r \<le> 999999" by linarith+
    then have "round_to_tick default_rules ?r = (?r + 5) div 10 * 10"
      by (rule round_default_10)
    also have "\<dots> = ?r" by (rule round_mult_fix) simp_all
    finally show ?thesis by (simp add: r)
  next
    case 6
    have r: "round_to_tick default_rules p = 1000000"
      using 6 by (simp add: round_default_10)
    show ?thesis by (simp add: r round_default_100)
  next
    case 7
    let ?r = "(p + 50) div 100 * 100"
    have r: "round_to_tick default_rules p = ?r"
      using 7 assms by (simp add: round_default_100)
    have "10000 \<le> (p + 50) div 100" using 7 by linarith
    then have lo: "1000000 \<le> ?r" by linarith
    have "(p + 50) div 100 \<le> 92233720368547757" using assms by linarith
    then have hi: "?r \<le> 9223372036854775757" by linarith
    have "round_to_tick default_rules ?r = (?r + 50) div 100 * 100"
      using lo hi by (rule round_default_100)
    also have "\<dots> = ?r" by (rule round_mult_fix) simp_all
    finally show ?thesis by (simp add: r)
  qed
qed

lemma round_top_band:
  "round_to_tick default_rules 9223372036854775750 = 9223372036854775800"
  by (simp add: round_default_100)

lemma round_top_band_again:
  "round_to_tick default_rules 9223372036854775800 = - 9223372036854775700"
proof -
  have f: "find (\<lambda>r. min_price r \<le> 9223372036854775800 \<and> max_price r \<ge> 9223372036854775800)
             default_rules
           = Some \<lparr> min_price = 1000000, max_price = LLONG_MAX, tick_size = 100 \<rparr>"
    by (simp add: default_rules_def LLONG_MAX_def)
  have h: "(100::int) sdiv 2 = 50" by simp
  have a: "wrap64 (9223372036854775800 + 50) = - 9223372036854775766"
    by (simp add: wrap64_def)
  have b: "(- 9223372036854775766 :: int) sdiv 100 = - 92233720368547757"
    by (simp add: signed_divide_int_def)
  have c: "wrap64 (- 92233720368547757 * 100) = - 9223372036854775700"
    by (simp add: wrap64_def)
  show ?thesis
    unfolding round_to_tick_def f
    using a b c by (simp add: h)
qed

text \<open>
  C10 (as amended). With the default bands and for every price below
  9223372036854775750, \<open>round_to_tick\<close> is idempotent, that is, its result satisfies
  \<open>is_valid_price\<close>. Above that bound the 64-bit addition \<open>price + half_tick\<close> of one of
  the two roundings overflows.
\<close>

theorem round_to_tick_idempotent:
  assumes "p < 9223372036854775750"
  shows "round_to_tick default_rules (round_to_tick default_rules p)
           = round_to_tick default_rules p
         \<and> is_valid_price default_rules (round_to_tick default_rules p)"
  using round_default_idem [OF assms] by (simp add: is_valid_price_def)

theorem round_to_tick_idempotent_witness:
  "(100002::int) < 9223372036854775750
   \<and> round_to_tick default_rules 100002 = 100000
   \<and> round_to_tick default_rules (round_to_tick default_rules 100002)
       = round_to_tick default_rules 100002
   \<and> is_valid_price default_rules (round_to_tick default_rules 100002)"
  using round_to_tick_idempotent [of 100002] by (simp add: round_default_5)

text \<open>
  C10 as stated fails at the price 9223372036854775750: it is rounded to
  9223372036854775800 without overflow, and rounding that price again overflows
  \<open>price + half_tick\<close>, which wraps to a negative number.
\<close>

theorem round_to_tick_idempotent_counterexample:
  "round_to_tick default_rules 9223372036854775750 = 9223372036854775800
   \<and> round_to_tick default_rules (round_to_tick default_rules 9223372036854775750)
       = - 9223372036854775700
   \<and> \<not> is_valid_price default_rules (round_to_tick default_rules 9223372036854775750)"
  by (simp add: round_top_band round_top_band_again is_valid_price_def)

section \<open>Facts about the object pool\<close>

lemma release_null: "release None P = P"
  by (simp add: release_def)

lemma release_foreign: "ptr \<notin> valid_objects P \<Longrightarrow> release (Some ptr) P = P"
  by (simp add: release_def)

lemma pool_released_once_eq:
  "pool_released_once =
     \<lparr> pool = [Order_default], available = [0], pool_size = 1,
       allocated_count = 0, valid_objects = {0..<1} \<rparr>"
  by (simp add: pool_released_once_def acquire_def ObjectPool_def release_def
        reset_order_def Order_default_def)

text \<open>
  C8 fails for a handle that has already been released. Object 0 of
  \<open>pool_released_once\<close> is free again; releasing it a second time pushes it on the
  stack of free objects once more and decrements the count of allocated objects below
  zero.
\<close>

theorem release_double_free:
  "available pool_released_once = [0]
   \<and> allocated_count pool_released_once = 0
   \<and> available (release (Some 0) pool_released_once) = [0, 0]
   \<and> allocated_count (release (Some 0) pool_released_once) = 2 ^ 64 - 1
   \<and> release (Some 0) pool_released_once \<noteq> pool_released_once"
proof -
  have a: "available (release (Some 0) pool_released_once) = [0, 0]"
    by (simp add: pool_released_once_eq release_def)
  have c: "allocated_count (release (Some 0) pool_released_once) = 2 ^ 64 - 1"
    by (simp add: pool_released_once_eq release_def)
  have b: "available pool_released_once = [0]" "allocated_count pool_released_once = 0"
    by (simp_all add: pool_released_once_eq)
  have "available (release (Some 0) pool_released_once) \<noteq> available pool_released_once"
    by (simp only: a b) simp
  then have "release (Some 0) pool_released_once \<noteq> pool_released_once"
    by auto
  then show ?thesis
    by (simp only: a b c) simp
qed

text \<open>
  C9 fails for the fields \<open>side\<close>, \<open>type\<close> and \<open>is_market_maker\<close>: \<open>reset_order\<close> does
  not assign them, so the released slot of a market-maker FOK sell order keeps all
  three.
\<close>

theorem release_keeps_side_type:
  "0 \<in> valid_objects pool_live_sell
   \<and> side (pool (release (Some 0) pool_live_sell) ! 0) = SELL
   \<and> otype (pool (release (Some 0) pool_live_sell) ! 0) = FOK
   \<and> is_market_maker (pool (release (Some 0) pool_live_sell) ! 0) = True
   \<and> pool (release (Some 0) pool_live_sell) ! 0 \<noteq> Order_default
   \<and> available (release (Some 0) pool_live_sell) = [0]"
  by (simp add: pool_live_sell_def acquire_def ObjectPool_def release_def reset_order_def
        Order_new_def Order_default_def)

section \<open>Facts about the stop manager\<close>

lemma takeWhile_le_sorted:
  "sorted (map fst m) \<Longrightarrow> takeWhile (\<lambda>kv. fst kv \<le> (k::int)) m = filter (\<lambda>kv. fst kv \<le> k) m"
  by (induction m) (auto intro!: filter_False [symmetric])

lemma dropWhile_le_sorted:
  "sorted (map fst m) \<Longrightarrow> dropWhile (\<lambda>kv. fst kv \<le> (k::int)) m = filter (\<lambda>kv. k < fst kv) m"
  by (induction m) (auto intro!: filter_True [symmetric])

lemma takeWhile_less_sorted:
  "sorted (map fst m) \<Longrightarrow> takeWhile (\<lambda>kv. fst kv < (k::int)) m = filter (\<lambda>kv. fst kv < k) m"
  by (induction m) (auto intro!: filter_False [symmetric])

lemma dropWhile_less_sorted:
  "sorted (map fst m) \<Longrightarrow> dropWhile (\<lambda>kv. fst kv < (k::int)) m = filter (\<lambda>kv. k \<le> fst kv) m"
  by (induction m) (auto intro!: filter_True [symmetric])

lemma erase_ids_None:
  "ptr \<in> set ptrs \<Longrightarrow> erase_ids mem ptrs lookup (order_id (mem ! ptr)) = None"
proof (induction ptrs arbitrary: lookup)
  case Nil
  then show ?case by simp
next
  case (Cons a ptrs)
  have keep: "\<And>qs l i. l i = None \<Longrightarrow> erase_ids mem qs l i = None"
  proof -
    fix qs :: "nat list" and l :: "nat \<rightharpoonup> nat" and i
    show "l i = None \<Longrightarrow> erase_ids mem qs l i = None"
      by (induction qs arbitrary: l) (simp_all add: erase_ids_def)
  qed
  show ?case
  proof (cases "ptr = a")
    case True
    then show ?thesis
      using keep [of "lookup(order_id (mem ! a) := None)" "order_id (mem ! a)" ptrs]
      by (simp add: erase_ids_def)
  next
    case False
    then show ?thesis using Cons by (simp add: erase_ids_def)
  qed
qed

lemma keys_map_at: "fst ` set (map_at lt k d f m) = insert k (fst ` set m)"
  by (induction m) force+

lemma sorted_map_at:
  "sorted (map fst m) \<Longrightarrow> sorted (map fst (map_at (<) (k::int) d f m))"
proof (induction m)
  case Nil
  then show ?case by simp
next
  case (Cons a m)
  obtain k' v where a: "a = (k', v)" by (cases a)
  have "\<forall>x \<in> fst ` set (map_at (<) k d f m). k' \<le> x" if "\<not> k < k'"
    using that Cons.prems by (auto simp: keys_map_at a)
  then show ?case
    using Cons by (auto simp: a less_imp_le)
qed

text \<open>
  C4 (as amended). \<open>check_triggered_stops\<close> returns the buckets of the buy stops whose
  trigger price is at most the last trade price, in ascending order of trigger price,
  followed by the buckets of the sell stops whose trigger price is at least the last
  trade price, also in ascending order of trigger price; each bucket is emitted in its
  arrival order. The returned buckets are erased from both stop books and the ids of the
  returned orders from the lookup. The bucket key is the \<open>stop_price\<close> under which
  \<open>add_stop_order\<close> filed the order.
\<close>

theorem check_triggered_stops_order:
  assumes "sorted (map fst (buy_stops sm))" and "sorted (map fst (sell_stops sm))"
  shows "fst (check_triggered_stops mem ltp sm)
           = concat (map snd (filter (\<lambda>kv. fst kv \<le> ltp) (buy_stops sm)))
             @ concat (map snd (filter (\<lambda>kv. ltp \<le> fst kv) (sell_stops sm)))
         \<and> sorted (map fst (filter (\<lambda>kv. fst kv \<le> ltp) (buy_stops sm)))
         \<and> sorted (map fst (filter (\<lambda>kv. ltp \<le> fst kv) (sell_stops sm)))
         \<and> buy_stops (snd (check_triggered_stops mem ltp sm))
             = filter (\<lambda>kv. ltp < fst kv) (buy_stops sm)
         \<and> sell_stops (snd (check_triggered_stops mem ltp sm))
             = filter (\<lambda>kv. fst kv < ltp) (sell_stops sm)
         \<and> (\<forall>ptr \<in> set (fst (check_triggered_stops mem ltp sm)).
               stop_lookup (snd (check_triggered_stops mem ltp sm)) (order_id (mem ! ptr)) = None)"
proof -
  have s1: "sorted (map fst (filter (\<lambda>kv. fst kv \<le> ltp) (buy_stops sm)))"
    using assms(1) by (simp add: sorted_filter)
  have s2: "sorted (map fst (filter (\<lambda>kv. ltp \<le> fst kv) (sell_stops sm)))"
    using assms(2) by (simp add: sorted_filter)
  have l: "\<forall>ptr \<in> set (fst (check_triggered_stops mem ltp sm)).
               stop_lookup (snd (check_triggered_stops mem ltp sm)) (order_id (mem ! ptr)) = None"
    by (simp add: check_triggered_stops_def Let_def erase_ids_None)
  show ?thesis
    using s1 s2 l assms
    by (simp add: check_triggered_stops_def Let_def upto_upper_bound_def from_upper_bound_def
          upto_lower_bound_def from_lower_bound_def takeWhile_le_sorted dropWhile_le_sorted
          takeWhile_less_sorted dropWhile_less_sorted)
qed

lemma stops_example_eq:
  "buy_stops stops_example = [(90, [3]), (95, [2])]"
  "sell_stops stops_example = [(100, [0]), (105, [1])]"
  by (simp_all add: stops_example_def add_stop_order_def stops_mem_def Order_new_def
        StopOrderManager_empty_def Let_def)

theorem check_triggered_stops_order_witness:
  "sorted (map fst (buy_stops stops_example)) \<and> sorted (map fst (sell_stops stops_example))
   \<and> fst (check_triggered_stops stops_mem 100 stops_example) = [3, 2, 0, 1]
   \<and> buy_stops (snd (check_triggered_stops stops_mem 100 stops_example)) = []
   \<and> sell_stops (snd (check_triggered_stops stops_mem 100 stops_example)) = []
   \<and> map (\<lambda>ptr. stop_lookup (snd (check_triggered_stops stops_mem 100 stops_example))
                  (order_id (stops_mem ! ptr))) [3, 2, 0, 1]
       = [None, None, None, None]"
  using check_triggered_stops_order [of stops_example stops_mem 100]
  by (simp add: stops_example_eq)

text \<open>
  C4 as stated fails for the sell stops: with sell stops at 100 and 105 and a last trade
  price of 100, the stop at 100 is emitted before the stop at 105.
\<close>

theorem check_triggered_stops_sell_ascending:
  "fst (check_triggered_stops stops_mem 100 stops_example) = [3, 2, 0, 1]
   \<and> map (\<lambda>ptr. (side (stops_mem ! ptr), stop_price (stops_mem ! ptr))) [3, 2, 0, 1]
       = [(BUY, 90), (BUY, 95), (SELL, 100), (SELL, 105)]
   \<and> triggered_as_specified 100 stops_example = [3, 2, 1, 0]
   \<and> fst (check_triggered_stops stops_mem 100 stops_example)
       \<noteq> triggered_as_specified 100 stops_example"
  by (simp add: check_triggered_stops_def Let_def upto_upper_bound_def from_lower_bound_def
        stops_example_eq triggered_as_specified_def stops_mem_def Order_new_def)

section \<open>Facts about the order book\<close>

lemma acquire_ptr_in_pool:
  assumes "pool_wf P"
  shows "fst (acquire P) < length (pool (snd (acquire P)))"
    and "fst (acquire P) \<in> valid_objects (snd (acquire P))"
    and "length (pool P) \<le> length (pool (snd (acquire P)))"
  using assms by (auto simp: acquire_def pool_wf_def Let_def split: list.splits)

lemma upd_order_frame:
  "bids (upd_order ptr f s) = bids s" "asks (upd_order ptr f s) = asks s"
  "orders (upd_order ptr f s) = orders s" "stop_manager (upd_order ptr f s) = stop_manager s"
  "position_updates (upd_order ptr f s) = position_updates s"
  "processing_stops (upd_order ptr f s) = processing_stops s"
  "stop_cascade_depth (upd_order ptr f s) = stop_cascade_depth s"
  "stats (upd_order ptr f s) = stats s"
  "available (order_pool (upd_order ptr f s)) = available (order_pool s)"
  "allocated_count (order_pool (upd_order ptr f s)) = allocated_count (order_pool s)"
  "valid_objects (order_pool (upd_order ptr f s)) = valid_objects (order_pool s)"
  "pool (order_pool (upd_order ptr f s)) = (pool (order_pool s))[ptr := f (deref s ptr)]"
  by (simp_all add: upd_order_def)

lemma upd_order_twice:
  "ptr < length (pool (order_pool s)) \<Longrightarrow>
     upd_order ptr g (upd_order ptr f s) = upd_order ptr (\<lambda>x. g (f x)) s"
  by (simp add: upd_order_def deref_def)

lemma add_order_init_eq:
  assumes "pool_wf (order_pool s)"
  shows "add_order_init now mm i sd p qty disp dsize ty owner sp sess s =
           (fst (acquire (order_pool s)),
            upd_order (fst (acquire (order_pool s)))
              (\<lambda>_. placed_order now mm i sd p qty disp dsize ty owner sp sess)
              (s\<lparr> stats := (stats s)\<lparr> totalOrders := (totalOrders (stats s) + 1) mod 2 ^ 64 \<rparr>,
                  order_pool := snd (acquire (order_pool s)) \<rparr>))"
proof -
  obtain ptr P where a: "acquire (order_pool s) = (ptr, P)" by (cases "acquire (order_pool s)")
  have len: "ptr < length (pool P)"
    using acquire_ptr_in_pool(1) [OF assms] a by simp
  let ?s0 = "s\<lparr> stats := (stats s)\<lparr> totalOrders := (totalOrders (stats s) + 1) mod 2 ^ 64 \<rparr>,
                 order_pool := P \<rparr>"
  have len0: "ptr < length (pool (order_pool ?s0))" using len by simp
  have len1: "\<And>f. ptr < length (pool (order_pool (upd_order ptr f ?s0)))"
    using len by (simp add: upd_order_frame)
  show ?thesis
    using len0
    by (simp add: add_order_init_def a Let_def upd_order_twice len1 placed_order_def)
       (simp add: upd_order_def Order_new_def)
qed

lemma map_find_None_keys: "map_find k m = None \<longleftrightarrow> k \<notin> fst ` set m"
  by (simp add: map_find_def map_of_eq_None_iff)

lemma map_find_Some_key: "map_find k m = Some v \<Longrightarrow> k \<in> fst ` set m"
  by (metis map_find_None_keys option.distinct(1))

lemma map_erase_absent: "k \<notin> fst ` set m \<Longrightarrow> map_erase k m = m"
  by (induction m) (auto simp: map_erase_def)

lemma map_put_absent: "k \<notin> fst ` set m \<Longrightarrow> map_put k v m = m"
  by (induction m) (auto simp: map_put_def)

lemma map_erase_map_at:
  "map_find k m = None \<Longrightarrow> map_erase k (map_at lt k d f m) = m"
proof (induction m)
  case Nil
  then show ?case by (simp add: map_erase_def)
next
  case (Cons a m)
  obtain k' v where a: "a = (k', v)" by (cases a)
  from Cons.prems have ne: "k \<noteq> k'" and rest: "map_find k m = None"
    by (auto simp: map_find_def a split: if_splits)
  have "map_erase k ((k', v) # m) = (k', v) # m"
    using Cons.prems ne by (intro map_erase_absent) (auto simp: map_find_None_keys a)
  then show ?case
    using Cons.IH [OF rest] ne by (auto simp: a map_erase_def)
qed

lemma map_find_map_at_absent:
  "map_find k m = None \<Longrightarrow> map_find k (map_at lt k d f m) = Some (f d)"
  by (induction m) (auto simp: map_find_def split: if_splits)

lemma map_at_present:
  assumes irr: "\<And>a. \<not> lt a a" and tr: "\<And>a b c. lt a b \<Longrightarrow> lt b c \<Longrightarrow> lt a c"
  shows "sorted_wrt lt (map fst m) \<Longrightarrow> map_find k m = Some v \<Longrightarrow>
           map_at lt k d f m = map_put k (f v) m"
proof (induction m)
  case Nil
  then show ?case by (simp add: map_find_def)
next
  case (Cons a m)
  obtain k' v' where a: "a = (k', v')" by (cases a)
  have later: "\<forall>x \<in> fst ` set m. lt k' x" and srt: "sorted_wrt lt (map fst m)"
    using Cons.prems(1) by (auto simp: a)
  show ?case
  proof (cases "k = k'")
    case True
    have "k \<notin> fst ` set m" using later irr True by auto
    then have "map_put k (f v) m = m" by (rule map_put_absent)
    moreover have "v' = v" using Cons.prems(2) True by (simp add: map_find_def a)
    ultimately show ?thesis using True by (simp add: a map_put_def)
  next
    case False
    then have f: "map_find k m = Some v" using Cons.prems(2) by (simp add: map_find_def a)
    then have "lt k' k" using later map_find_Some_key by fastforce
    then have "\<not> lt k k'" using irr tr by blast
    then show ?thesis
      using False Cons.IH [OF srt f] by (simp add: a map_put_def)
  qed
qed

lemma map_find_map_put:
  "map_find k m = Some v \<Longrightarrow> map_find k (map_put k x m) = Some x"
  by (induction m) (auto simp: map_find_def map_put_def split: if_splits)

lemma map_put_map_put: "map_put k v (map_put k x m) = map_put k v m"
  by (induction m) (auto simp: map_put_def)

lemma map_put_same:
  "distinct (map fst m) \<Longrightarrow> map_find k m = Some v \<Longrightarrow> map_put k v m = m"
proof (induction m)
  case Nil
  then show ?case by (simp add: map_put_def)
next
  case (Cons a m)
  obtain k' v' where a: "a = (k', v')" by (cases a)
  show ?case
  proof (cases "k = k'")
    case True
    then have "k \<notin> fst ` set m" using Cons.prems(1) by (auto simp: a)
    then have "map_put k v m = m" by (rule map_put_absent)
    then show ?thesis using True Cons.prems(2) by (simp add: a map_put_def map_find_def)
  next
    case False
    then show ?thesis using Cons by (simp add: a map_put_def map_find_def)
  qed
qed

lemma side_lt_irrefl: "\<not> side_lt sd a a"
  by (simp add: side_lt_def)

lemma side_lt_trans: "side_lt sd a b \<Longrightarrow> side_lt sd b c \<Longrightarrow> side_lt sd a c"
  by (auto simp: side_lt_def split: if_splits)

lemma book_sorted_distinct: "book_sorted sd m \<Longrightarrow> distinct (map fst m)"
proof -
  have "sorted_wrt (side_lt sd) xs \<Longrightarrow> distinct xs" for xs
    by (induction xs) (auto simp: side_lt_irrefl)
  then show "book_sorted sd m \<Longrightarrow> distinct (map fst m)"
    unfolding book_sorted_def by blast
qed

lemma PriceLevel_erase_add:
  "ptr \<notin> set (PriceLevel_queue level) \<Longrightarrow>
     PriceLevel_erase ptr (PriceLevel_add_order mem ptr level) = level"
  by (simp add: PriceLevel_erase_def PriceLevel_add_order_def PriceLevel_queue_def remove1_append)

lemma PriceLevel_add_not_empty: "\<not> PriceLevel_empty (PriceLevel_add_order mem ptr level)"
  by (simp add: PriceLevel_empty_def PriceLevel_add_order_def)

lemma size_t_inc_dec: "c < 2 ^ 64 \<Longrightarrow> ((c + 1) mod 2 ^ 64 + 2 ^ 64 - 1) mod 2 ^ 64 = (c::nat)"
proof -
  assume c: "c < 2 ^ 64"
  show ?thesis
  proof (cases "c + 1 < 2 ^ 64")
    case True
    then have "((c + 1) mod 2 ^ 64 + 2 ^ 64 - 1) = c + 2 ^ 64" by simp
    then show ?thesis using c by simp
  next
    case False
    then have "c + 1 = 2 ^ 64" using c by simp
    then show ?thesis by simp
  qed
qed

lemma acquire_release_count:
  assumes "pool_wf P"
  shows "allocated_count (release (Some (fst (acquire P))) ((snd (acquire P))\<lparr> pool := mem \<rparr>))
           = allocated_count P"
proof -
  have v: "fst (acquire P) \<in> valid_objects (snd (acquire P))"
    using acquire_ptr_in_pool(2) [OF assms] .
  have c: "allocated_count (snd (acquire P)) = (allocated_count P + 1) mod 2 ^ 64"
    by (simp add: acquire_def Let_def split: list.splits)
  have lt: "allocated_count P < 2 ^ 64" using assms by (simp add: pool_wf_def)
  have "allocated_count (release (Some (fst (acquire P))) ((snd (acquire P))\<lparr> pool := mem \<rparr>))
          = (allocated_count (snd (acquire P)) + 2 ^ 64 - 1) mod 2 ^ 64"
    using v by (simp add: release_def)
  also have "\<dots> = ((allocated_count P + 1) mod 2 ^ 64 + 2 ^ 64 - 1) mod 2 ^ 64"
    by (simp only: c)
  also have "\<dots> = allocated_count P"
    using lt by (rule size_t_inc_dec)
  finally show ?thesis .
qed

lemma match_book_no_cross:
  assumes "side_book (other_side sd) s = []
           \<or> price_break limit sd (fst (hd (side_book (other_side sd) s)))"
  shows "match_book (Suc fuel) limit sd ptr trades s = Some (trades, s)"
  using assms by (auto simp: Let_def)

lemma process_triggered_stops_Nil: "process_triggered_stops fuel [] s = Some ([], s)"
  by (simp add: process_triggered_stops_def)

lemma placed_order_fields:
  "order_id (placed_order now mm i sd p qty disp dsize ty owner sp sess) = i"
  "side (placed_order now mm i sd p qty disp dsize ty owner sp sess) = sd"
  "otype (placed_order now mm i sd p qty disp dsize ty owner sp sess) = ty"
  "display (placed_order now mm i sd p qty disp dsize ty owner sp sess) = disp"
  "quantity (placed_order now mm i sd p qty disp dsize ty owner sp sess) = qty"
  "ownerID (placed_order now mm i sd p qty disp dsize ty owner sp sess) = owner"
  "is_market_maker (placed_order now mm i sd p qty disp dsize ty owner sp sess) = mm"
  "price (placed_order now mm i sd p qty disp dsize ty owner sp sess)
     = (if ty \<noteq> MARKET \<and> p > 0 then round_if_positive p else p)"
  by (simp_all add: placed_order_def Order_new_def)

lemma set_side_book_frame:
  "orders (set_side_book sd m s) = orders s"
  "order_pool (set_side_book sd m s) = order_pool s"
  "stop_manager (set_side_book sd m s) = stop_manager s"
  "stats (set_side_book sd m s) = stats s"
  "position_updates (set_side_book sd m s) = position_updates s"
  "processing_stops (set_side_book sd m s) = processing_stops s"
  "stop_cascade_depth (set_side_book sd m s) = stop_cascade_depth s"
  "side_book sd (set_side_book sd m s) = m"
  "side_book (other_side sd) (set_side_book sd m s) = side_book (other_side sd) s"
  "side_book sd (set_side_book (other_side sd) m s) = side_book sd s"
  by (simp_all add: set_side_book_def side_book_def other_side_def)

lemma side_book_frame:
  "side_book sd (release_order ptr s) = side_book sd s"
  "side_book sd (erase_order_id i s) = side_book sd s"
  "side_book sd (upd_order ptr f s) = side_book sd s"
  "side_book sd (s\<lparr> stats := st \<rparr>) = side_book sd s"
  "side_book sd (s\<lparr> orders := om \<rparr>) = side_book sd s"
  "side_book sd (s\<lparr> order_pool := op \<rparr>) = side_book sd s"
  by (simp_all add: side_book_def release_order_def erase_order_id_def upd_order_def)

lemma cancel_order_found:
  assumes "orders s i = Some ptr" and "otype (deref s ptr) \<noteq> STOP_LOSS"
      and "map_find (price (deref s ptr)) (side_book (side (deref s ptr)) s) = Some level"
  shows "cancel_order i s =
           (True,
            (release_order ptr (erase_order_id i
               (set_side_book (side (deref s ptr))
                  (if PriceLevel_empty (PriceLevel_erase ptr level)
                   then map_erase (price (deref s ptr)) (side_book (side (deref s ptr)) s)
                   else map_put (price (deref s ptr)) (PriceLevel_erase ptr level)
                          (side_book (side (deref s ptr)) s)) s)))
            \<lparr> stats := (stats s)\<lparr> totalCancelledOrders :=
                         (totalCancelledOrders (stats s) + 1) mod 2 ^ 64 \<rparr> \<rparr>)"
  using assms
  by (simp add: cancel_order_def Let_def release_order_def erase_order_id_def set_side_book_frame)

text \<open>
  C5 (as amended). Let an approved GTC or ICEBERG order with a positive display come to
  rest: the opposite book is empty or its best price does not cross the order's price.
  If the order's id is not yet in the id index, tick rounding leaves its price unchanged,
  and its own price level, where it exists already, is not empty and does not hold the
  slot that the call acquires, then \<open>add_order\<close> returns no trades, the following
  \<open>cancel_order\<close> of the id returns true, and the bids, the asks, the id index and the
  count of allocated pool objects are what they were before the order was added.
\<close>

theorem cancel_after_add:
  assumes ty: "ty = GTC \<or> ty = ICEBERG"
      and disp: "0 < disp"
      and nocross: "side_book (other_side sd) s = []
                    \<or> price_break (Some p) sd (fst (hd (side_book (other_side sd) s)))"
      and fresh: "orders s i = None"
      and aligned: "0 < p \<longrightarrow> round_if_positive p = p"
      and wf: "pool_wf (order_pool s)"
      and srt: "book_sorted sd (side_book sd s)"
      and lvl: "\<forall>level. map_find p (side_book sd s) = Some level \<longrightarrow>
                  \<not> PriceLevel_empty level
                  \<and> fst (acquire (order_pool s)) \<notin> set (PriceLevel_queue level)"
  shows "\<exists>s1 s2.
           add_order (Suc fuel) True now mm i sd p qty disp dsize ty owner sp sess s = Some ([], s1)
           \<and> cancel_order i s1 = (True, s2)
           \<and> bids s2 = bids s \<and> asks s2 = asks s \<and> orders s2 = orders s
           \<and> allocated_count (order_pool s2) = allocated_count (order_pool s)"
proof -
  define ptr where "ptr = fst (acquire (order_pool s))"
  define P where "P = snd (acquire (order_pool s))"
  define od where "od = placed_order now mm i sd p qty disp dsize ty owner sp sess"
  define sA where "sA = upd_order ptr (\<lambda>_. od)
      (s\<lparr> stats := (stats s)\<lparr> totalOrders := (totalOrders (stats s) + 1) mod 2 ^ 64 \<rparr>,
          order_pool := P \<rparr>)"
  have init: "add_order_init now mm i sd p qty disp dsize ty owner sp sess s = (ptr, sA)"
    using add_order_init_eq [OF wf] by (simp add: ptr_def P_def od_def sA_def)
  have len: "ptr < length (pool P)"
    using acquire_ptr_in_pool(1) [OF wf] by (simp add: ptr_def P_def)
  have valid: "ptr \<in> valid_objects P"
    using acquire_ptr_in_pool(2) [OF wf] by (simp add: ptr_def P_def)
  have memA: "pool (order_pool sA) = (pool P)[ptr := od]"
    by (simp add: sA_def upd_order_def)
  have derefA: "deref sA ptr = od"
    using len by (simp add: deref_def memA)
  have od_price: "price od = p"
    using aligned ty by (auto simp: od_def placed_order_fields)
  have od_ty: "otype od \<noteq> STOP_LOSS" "otype od \<noteq> FOK" "otype od \<noteq> MARKET"
    using ty by (auto simp: od_def placed_order_fields)
  have frameA: "bids sA = bids s" "asks sA = asks s" "orders sA = orders s"
    "order_pool sA = P\<lparr> pool := (pool P)[ptr := od] \<rparr>"
    by (simp_all add: sA_def upd_order_def)
  have sideA: "side_book sd' sA = side_book sd' s" for sd'
    by (simp add: side_book_def frameA)
  have mb: "match_book (Suc fuel) (Some p) sd ptr [] sA = Some ([], sA)"
    using nocross by (intro match_book_no_cross) (simp add: sideA)
  define book where "book = side_book sd s"
  define book1 where "book1 = map_at (side_lt sd) p PriceLevel_new
                                (PriceLevel_add_order (pool (order_pool sA)) ptr) book"
  define sB where "sB = (set_side_book sd book1 sA)\<lparr> orders := (orders s)(i \<mapsto> ptr) \<rparr>"
  define s1 where "s1 = add_trade_stats [] sB"
  have nt: "ty \<noteq> STOP_LOSS" "ty \<noteq> FOK" "ty \<noteq> MARKET"
    using ty by auto
  have rest: "0 < display (deref sA ptr) \<and> (ty = GTC \<or> ty = ICEBERG)"
    using ty disp by (simp add: derefA od_def placed_order_fields)
  have run: "add_order (Suc fuel) True now mm i sd p qty disp dsize ty owner sp sess s = Some ([], s1)"
    by (simp add: add_order_def init mb nt rest Let_def process_triggered_stops_Nil s1_def sB_def
          book1_def book_def sideA frameA set_side_book_frame del: match_book.simps)
  have pool1: "order_pool s1 = P\<lparr> pool := (pool P)[ptr := od] \<rparr>"
    by (simp add: s1_def sB_def add_trade_stats_def set_side_book_def frameA)
  have deref1: "deref s1 ptr = od"
    using len by (simp add: deref_def pool1)
  have orders1: "orders s1 = (orders s)(i \<mapsto> ptr)"
    by (simp add: s1_def sB_def add_trade_stats_def)
  have side1: "side_book sd s1 = book1"
    by (cases sd) (simp_all add: s1_def sB_def add_trade_stats_def set_side_book_def side_book_def)
  have other1: "side_book (other_side sd) s1 = side_book (other_side sd) s"
    by (cases sd)
       (simp_all add: s1_def sB_def add_trade_stats_def set_side_book_def side_book_def
          other_side_def frameA)
  have od_side: "side od = sd" by (simp add: od_def placed_order_fields)
  have restore: "\<exists>level'. map_find p book1 = Some level'
      \<and> (if PriceLevel_empty (PriceLevel_erase ptr level')
          then map_erase p book1 else map_put p (PriceLevel_erase ptr level') book1) = book"
  proof (cases "map_find p book")
    case None
    have "map_find p book1 = Some (PriceLevel_add_order (pool (order_pool sA)) ptr PriceLevel_new)"
      unfolding book1_def by (rule map_find_map_at_absent [OF None])
    moreover have "PriceLevel_erase ptr (PriceLevel_add_order (pool (order_pool sA)) ptr PriceLevel_new)
                     = PriceLevel_new"
      by (rule PriceLevel_erase_add) (simp add: PriceLevel_queue_def PriceLevel_new_def)
    moreover have "PriceLevel_empty PriceLevel_new"
      by (simp add: PriceLevel_empty_def PriceLevel_new_def)
    moreover have "map_erase p book1 = book"
      unfolding book1_def by (rule map_erase_map_at [OF None])
    ultimately show ?thesis by simp
  next
    case (Some level)
    have ne: "\<not> PriceLevel_empty level" and nin: "ptr \<notin> set (PriceLevel_queue level)"
      using lvl Some by (auto simp: book_def ptr_def)
    have b1: "book1 = map_put p (PriceLevel_add_order (pool (order_pool sA)) ptr level) book"
      unfolding book1_def
      using srt Some
      by (intro map_at_present) (auto simp: book_sorted_def book_def side_lt_irrefl intro: side_lt_trans)
    have "map_find p book1 = Some (PriceLevel_add_order (pool (order_pool sA)) ptr level)"
      unfolding b1 by (rule map_find_map_put [OF Some])
    moreover have "PriceLevel_erase ptr (PriceLevel_add_order (pool (order_pool sA)) ptr level) = level"
      by (rule PriceLevel_erase_add [OF nin])
    moreover have "map_put p level book1 = book"
      unfolding b1 map_put_map_put
      using srt Some by (intro map_put_same book_sorted_distinct) (auto simp: book_def)
    ultimately show ?thesis using ne by simp
  qed
  then obtain level' where
    f1: "map_find p book1 = Some level'" and
    f2: "(if PriceLevel_empty (PriceLevel_erase ptr level')
          then map_erase p book1 else map_put p (PriceLevel_erase ptr level') book1) = book"
    by blast
  define book2 where "book2 = (if PriceLevel_empty (PriceLevel_erase ptr level')
          then map_erase p book1 else map_put p (PriceLevel_erase ptr level') book1)"
  define s2 where "s2 = (release_order ptr (erase_order_id i (set_side_book sd book2 s1)))
      \<lparr> stats := (stats s1)\<lparr> totalCancelledOrders :=
                   (totalCancelledOrders (stats s1) + 1) mod 2 ^ 64 \<rparr> \<rparr>"
  have c: "cancel_order i s1 = (True, s2)"
    using cancel_order_found [of s1 i ptr level']
    by (simp add: orders1 deref1 od_ty od_side od_price side1 f1 s2_def book2_def)
  have s2_side: "side_book sd s2 = book"
    using f2 by (simp add: s2_def side_book_frame set_side_book_frame book2_def)
  have s2_other: "side_book (other_side sd) s2 = side_book (other_side sd) s"
    using other1 by (simp add: s2_def side_book_frame set_side_book_frame)
  have s2_orders: "orders s2 = orders s"
  proof -
    have "(orders s)(i := None) = orders s" using fresh by (intro ext) simp
    then show ?thesis
      by (simp add: s2_def release_order_def erase_order_id_def set_side_book_frame orders1)
  qed
  have s2_pool: "order_pool s2 = release (Some ptr) (P\<lparr> pool := (pool P)[ptr := od] \<rparr>)"
    using pool1
    by (simp add: s2_def release_order_def erase_order_id_def set_side_book_frame)
  have s2_count: "allocated_count (order_pool s2) = allocated_count (order_pool s)"
    unfolding s2_pool ptr_def P_def by (rule acquire_release_count [OF wf])
  have "bids s2 = bids s \<and> asks s2 = asks s"
    using s2_side s2_other by (cases sd) (simp_all add: side_book_def other_side_def book_def)
  then show ?thesis
    using run c s2_orders s2_count by blast
qed

lemma execute_trade_quantity: "trade_quantity (fst (execute_trade a p qty s)) = qty"
  by (simp add: execute_trade_def Let_def)

lemma FOK_fill_trades:
  "fst (FOK_fill order_ptr (pas, qty) (trades, s))
     = trades @ [fst (execute_trade order_ptr pas qty s)]"
  by (simp add: FOK_fill_def Let_def split: prod.splits)

lemma fold_FOK_fill_quantities:
  "map trade_quantity (fst (fold (FOK_fill order_ptr) cands (trades, s)))
     = map trade_quantity trades @ map snd cands"
proof (induction cands arbitrary: trades s)
  case Nil
  then show ?case by simp
next
  case (Cons c cands)
  obtain pas qty where c: "c = (pas, qty)" by (cases c)
  obtain trades1 s1 where r: "FOK_fill order_ptr (pas, qty) (trades, s) = (trades1, s1)"
    by (cases "FOK_fill order_ptr (pas, qty) (trades, s)")
  have t1: "trades1 = trades @ [fst (execute_trade order_ptr pas qty s)]"
    using FOK_fill_trades [of order_ptr pas qty trades s] r by simp
  show ?case
    using Cons.IH [of trades1 s1]
    by (simp add: c r t1 execute_trade_quantity)
qed

lemma wrap64_between: "0 \<le> x \<Longrightarrow> x \<le> y \<Longrightarrow> y \<le> LLONG_MAX \<Longrightarrow> wrap64 x = x"
  by (rule wrap64_id) (simp_all add: LLONG_MAX_def)

text \<open>The probe: what is still needed and what has been promised add up to the quantity.\<close>

lemma check_orders_sum:
  assumes "0 \<le> needed" and "needed \<le> LLONG_MAX"
      and "\<forall>q \<in> set ps. 0 \<le> display (mem ! q)"
      and "check_orders mem order_ptr ps needed cands = (done, needed', cands')"
  shows "0 \<le> needed' \<and> needed' \<le> needed
         \<and> needed' + sum_list (map snd cands') = needed + sum_list (map snd cands)"
  using assms
proof (induction ps arbitrary: needed cands)
  case Nil
  then show ?case by simp
next
  case (Cons pas rest)
  show ?case
  proof (cases "ownerID (mem ! order_ptr) = ownerID (mem ! pas)")
    case True
    then show ?thesis using Cons by simp
  next
    case False
    let ?av = "min needed (display (mem ! pas))"
    have av: "0 \<le> ?av" "?av \<le> needed"
      using Cons.prems by simp_all
    have w: "wrap64 (needed - ?av) = needed - ?av"
    proof (rule wrap64_between)
      show "0 \<le> needed - ?av" "needed - ?av \<le> needed" using av by linarith+
      show "needed \<le> LLONG_MAX" by (rule Cons.prems(2))
    qed
    have unfold: "check_orders mem order_ptr (pas # rest) needed cands =
        (if needed - ?av \<le> 0 then (True, needed - ?av, cands @ [(pas, ?av)])
         else check_orders mem order_ptr rest (needed - ?av) (cands @ [(pas, ?av)]))"
      by (subst check_orders.simps(2)) (simp only: False if_False Let_def w)
    show ?thesis
    proof (cases "needed - ?av \<le> 0")
      case True
      then have e: "needed' = needed - ?av" "cands' = cands @ [(pas, ?av)]"
        using Cons.prems(4) unfolding unfold by simp_all
      have sm: "sum_list (map snd (cands @ [(pas, ?av)])) = sum_list (map snd cands) + ?av"
        by simp
      show ?thesis
        unfolding e sm using av by (intro conjI) linarith+
    next
      case stillneeded: False
      have r: "check_orders mem order_ptr rest (needed - ?av) (cands @ [(pas, ?av)])
              = (done, needed', cands')"
        using Cons.prems(4) stillneeded unfolding unfold by simp
      have "needed - ?av \<le> needed" using av by linarith
      then have "needed - ?av \<le> LLONG_MAX" using Cons.prems(2) by (rule order_trans)
      moreover have "0 \<le> needed - ?av" using av by linarith
      moreover have "\<forall>q \<in> set rest. 0 \<le> display (mem ! q)" using Cons.prems(3) by simp
      ultimately have "0 \<le> needed - ?av" "needed - ?av \<le> LLONG_MAX"
        "\<forall>q \<in> set rest. 0 \<le> display (mem ! q)" by blast+
      from Cons.IH [OF this r] have ih: "0 \<le> needed'" "needed' \<le> needed - ?av"
        "needed' + sum_list (map snd cands')
           = (needed - ?av) + sum_list (map snd (cands @ [(pas, ?av)]))"
        by blast+
      have sm: "sum_list (map snd (cands @ [(pas, ?av)])) = sum_list (map snd cands) + ?av"
        by simp
      show ?thesis
        using ih(1,2) av ih(3) [unfolded sm] by (intro conjI) linarith+
    qed
  qed
qed

lemma probe_levels_sum:
  assumes "0 \<le> needed" and "needed \<le> LLONG_MAX"
      and "\<forall>q \<in> set (book_orders levels). 0 \<le> display (mem ! q)"
      and "probe_levels mem order_ptr levels needed cands = (needed', cands')"
  shows "0 \<le> needed' \<and> needed' \<le> needed
         \<and> needed' + sum_list (map snd cands') = needed + sum_list (map snd cands)"
  using assms
proof (induction levels arbitrary: needed cands)
  case Nil
  then show ?case by simp
next
  case (Cons a levels)
  obtain price_level level where a: "a = (price_level, level)" by (cases a)
  show ?case
  proof (cases "if side (mem ! order_ptr) = BUY then price_level > price (mem ! order_ptr)
                else price_level < price (mem ! order_ptr)")
    case True
    then have "needed' = needed" "cands' = cands" using Cons.prems(4) by (auto simp: a split: if_splits)
    then show ?thesis using Cons.prems(1) by simp
  next
    case False
    obtain d1 n1 c1 where r1: "check_orders mem order_ptr (mm_orders level) needed cands = (d1, n1, c1)"
      by (cases "check_orders mem order_ptr (mm_orders level) needed cands") auto
    have mmnn: "\<forall>q \<in> set (mm_orders level). 0 \<le> display (mem ! q)"
      and regnn: "\<forall>q \<in> set (regular_orders level). 0 \<le> display (mem ! q)"
      and restnn: "\<forall>q \<in> set (book_orders levels). 0 \<le> display (mem ! q)"
      using Cons.prems(3) by (auto simp: book_orders_def a PriceLevel_queue_def)
    have i1: "0 \<le> n1 \<and> n1 \<le> needed
              \<and> n1 + sum_list (map snd c1) = needed + sum_list (map snd cands)"
      using check_orders_sum [OF Cons.prems(1,2) mmnn r1] .
    obtain n2 c2 where r2:
      "(if \<not> d1 \<and> n1 > 0
        then snd (check_orders mem order_ptr (regular_orders level) n1 c1) else (n1, c1)) = (n2, c2)"
      by (cases "if \<not> d1 \<and> n1 > 0
        then snd (check_orders mem order_ptr (regular_orders level) n1 c1) else (n1, c1)") auto
    have i2: "0 \<le> n2 \<and> n2 \<le> n1 \<and> n2 + sum_list (map snd c2) = n1 + sum_list (map snd c1)"
    proof (cases "\<not> d1 \<and> n1 > 0")
      case True
      obtain d2 where "check_orders mem order_ptr (regular_orders level) n1 c1 = (d2, n2, c2)"
        using r2 True by (cases "check_orders mem order_ptr (regular_orders level) n1 c1") auto
      from check_orders_sum [OF _ _ regnn this] show ?thesis
        using i1 Cons.prems(2) by auto
    next
      case False
      then show ?thesis using r2 i1 by auto
    qed
    show ?thesis
    proof (cases "n2 \<le> 0")
      case True
      then have "needed' = n2" "cands' = c2"
        using Cons.prems(4) False r1 r2 by (simp_all add: a)
      then show ?thesis using i1 i2 by auto
    next
      case more: False
      have "probe_levels mem order_ptr levels n2 c2 = (needed', cands')"
        using Cons.prems(4) False r1 r2 more by (simp add: a)
      from Cons.IH [OF _ _ restnn this] show ?thesis
        using i1 i2 Cons.prems(2) by auto
    qed
  qed
qed

lemma acquire_pool_nth:
  "q < length (pool P) \<Longrightarrow> pool (snd (acquire P)) ! q = pool P ! q"
  by (simp add: acquire_def Let_def nth_append split: list.splits)

lemma acquire_available:
  "available P \<noteq> [] \<Longrightarrow> fst (acquire P) # available (snd (acquire P)) = available P"
  by (simp add: acquire_def split: list.splits)

lemma acquire_exhausted:
  assumes "available P = []"
  shows "fst (acquire P) = length (pool P)"
    and "available (snd (acquire P)) = []"
    and "length (pool (snd (acquire P))) = Suc (length (pool P))"
  using assms by (simp_all add: acquire_def Let_def)

lemma acquire_length:
  "available P \<noteq> [] \<Longrightarrow> length (pool (snd (acquire P))) = length (pool P)"
  by (simp add: acquire_def split: list.splits)

lemma OrderBook_new_0_wf: "pool_wf (order_pool (OrderBook_new 0))"
  by (simp add: pool_wf_def OrderBook_new_def ObjectPool_def)

text \<open>
  C2 (as amended). Let \<open>ptr\<close> and \<open>s1\<close> be the slot and the book in which \<open>add_order\<close>
  has set up an approved FOK order, and \<open>needed\<close> and \<open>cands\<close> the result of the probe.
  If \<open>needed > 0\<close>, the call returns no trades and leaves the bids, the asks, the id
  index, the stop manager, the recorded position updates, the count of allocated pool
  objects and every pool object but the acquired one unchanged; the stack of free objects
  and the number of pool objects are unchanged when the pool had a free object, and a
  pool without a free object has grown by one object, which is the only free object
  after the call. Otherwise the commit emits one trade for each candidate of the probe,
  with the quantity the probe recorded for it; when the order's quantity is not negative
  and no order resting on the opposite side has a negative display, these quantities sum
  to the order's quantity.
\<close>

theorem FOK_all_or_nothing:
  assumes wf: "pool_wf (order_pool s)"
      and init: "add_order_init now mm i sd p qty disp dsize FOK owner sp sess s = (ptr, s1)"
      and probe: "FOK_probe ptr s1 = (needed, cands)"
  shows "(0 < needed \<longrightarrow>
           (\<exists>s'. add_order fuel True now mm i sd p qty disp dsize FOK owner sp sess s = Some ([], s')
               \<and> bids s' = bids s \<and> asks s' = asks s \<and> orders s' = orders s
               \<and> stop_manager s' = stop_manager s
               \<and> position_updates s' = position_updates s
               \<and> allocated_count (order_pool s') = allocated_count (order_pool s)
               \<and> available (order_pool s')
                   = (if available (order_pool s) = [] then [length (pool (order_pool s))]
                      else available (order_pool s))
               \<and> length (pool (order_pool s'))
                   = (if available (order_pool s) = [] then Suc (length (pool (order_pool s)))
                      else length (pool (order_pool s)))
               \<and> (\<forall>q < length (pool (order_pool s)). q \<noteq> ptr
                    \<longrightarrow> pool (order_pool s') ! q = pool (order_pool s) ! q)))
       \<and> (\<not> 0 < needed \<longrightarrow>
           (\<exists>trades s2. add_FOK_order ptr [] s1 = (True, trades, s2)
               \<and> map trade_quantity trades = map snd cands
               \<and> (0 \<le> qty \<and> qty \<le> LLONG_MAX
                    \<and> (\<forall>q \<in> set (book_orders (side_book (other_side sd) s1)).
                          0 \<le> display (deref s1 q))
                    \<longrightarrow> sum_list (map trade_quantity trades) = qty)))"
proof (intro conjI impI)
  define P where "P = snd (acquire (order_pool s))"
  define od where "od = placed_order now mm i sd p qty disp dsize FOK owner sp sess"
  have eq: "ptr = fst (acquire (order_pool s))"
    "s1 = upd_order ptr (\<lambda>_. od)
      (s\<lparr> stats := (stats s)\<lparr> totalOrders := (totalOrders (stats s) + 1) mod 2 ^ 64 \<rparr>,
          order_pool := P \<rparr>)"
    using add_order_init_eq [OF wf, of now mm i sd p qty disp dsize FOK owner sp sess] init
    by (simp_all add: P_def od_def)
  have len: "ptr < length (pool P)"
    using acquire_ptr_in_pool(1) [OF wf] by (simp add: eq(1) P_def)
  have valid: "ptr \<in> valid_objects P"
    using acquire_ptr_in_pool(2) [OF wf] by (simp add: eq(1) P_def)
  have pool1: "order_pool s1 = P\<lparr> pool := (pool P)[ptr := od] \<rparr>"
    by (simp add: eq(2) upd_order_def)
  have deref1: "deref s1 ptr = od"
    using len by (simp add: deref_def pool1)
  have frame1: "bids s1 = bids s" "asks s1 = asks s" "orders s1 = orders s"
    "stop_manager s1 = stop_manager s" "position_updates s1 = position_updates s"
    by (simp_all add: eq(2) upd_order_def)
  {
    assume pos: "0 < needed"
    define s' where "s' = release_order ptr s1"
    have fok: "add_FOK_order ptr [] s1 = (False, [], s1)"
      using pos by (simp add: add_FOK_order_def probe)
    have run: "add_order fuel True now mm i sd p qty disp dsize FOK owner sp sess s = Some ([], s')"
      by (simp add: add_order_def init fok Let_def process_triggered_stops_Nil s'_def)
    have pool': "order_pool s' = release (Some ptr) (P\<lparr> pool := (pool P)[ptr := od] \<rparr>)"
      by (simp add: s'_def release_order_def pool1)
    have cnt: "allocated_count (order_pool s') = allocated_count (order_pool s)"
      unfolding pool' eq(1) P_def by (rule acquire_release_count [OF wf])
    have av: "available (order_pool s')
                = (if available (order_pool s) = [] then [length (pool (order_pool s))]
                   else available (order_pool s))"
    proof (cases "available (order_pool s) = []")
      case True
      then show ?thesis
        using acquire_exhausted(1,2) [OF True] valid
        by (simp add: pool' release_def eq(1) P_def)
    next
      case False
      then show ?thesis
        using acquire_available [OF False] valid
        by (simp add: pool' release_def eq(1) P_def)
    qed
    have grow: "length (pool (order_pool s'))
                = (if available (order_pool s) = [] then Suc (length (pool (order_pool s)))
                   else length (pool (order_pool s)))"
      using acquire_exhausted(3) [of "order_pool s"] acquire_length [of "order_pool s"] valid
      by (simp add: pool' release_def P_def)
    have others: "pool (order_pool s') ! q = pool (order_pool s) ! q"
      if "q < length (pool (order_pool s))" "q \<noteq> ptr" for q
      using that valid acquire_pool_nth [OF that(1)]
      by (simp add: pool' release_def P_def)
    show "\<exists>s'. add_order fuel True now mm i sd p qty disp dsize FOK owner sp sess s = Some ([], s')
               \<and> bids s' = bids s \<and> asks s' = asks s \<and> orders s' = orders s
               \<and> stop_manager s' = stop_manager s
               \<and> position_updates s' = position_updates s
               \<and> allocated_count (order_pool s') = allocated_count (order_pool s)
               \<and> available (order_pool s')
                   = (if available (order_pool s) = [] then [length (pool (order_pool s))]
                      else available (order_pool s))
               \<and> length (pool (order_pool s'))
                   = (if available (order_pool s) = [] then Suc (length (pool (order_pool s)))
                      else length (pool (order_pool s)))
               \<and> (\<forall>q < length (pool (order_pool s)). q \<noteq> ptr
                    \<longrightarrow> pool (order_pool s') ! q = pool (order_pool s) ! q)"
      using run cnt av grow others
      by (intro exI [of _ s']) (simp add: s'_def release_order_def frame1)
  }
  {
    assume npos: "\<not> 0 < needed"
    obtain trades s2 where f: "fold (FOK_fill ptr) cands ([], s1) = (trades, s2)"
      by (cases "fold (FOK_fill ptr) cands ([], s1)")
    have fok: "add_FOK_order ptr [] s1 = (True, trades, s2)"
      using npos by (simp add: add_FOK_order_def probe f)
    have q: "map trade_quantity trades = map snd cands"
      using fold_FOK_fill_quantities [of ptr cands "[]" s1] by (simp add: f)
    have total: "sum_list (map trade_quantity trades) = qty"
      if h: "0 \<le> qty \<and> qty \<le> LLONG_MAX
             \<and> (\<forall>q \<in> set (book_orders (side_book (other_side sd) s1)). 0 \<le> display (deref s1 q))"
    proof -
      have pl: "probe_levels (pool (order_pool s1)) ptr (side_book (other_side sd) s1) qty []
                  = (needed, cands)"
        using probe by (simp add: FOK_probe_def deref1 od_def placed_order_fields)
      have nn: "\<forall>q \<in> set (book_orders (side_book (other_side sd) s1)).
                  0 \<le> display (pool (order_pool s1) ! q)"
        using h by (simp add: deref_def)
      have "0 \<le> needed \<and> needed \<le> qty
            \<and> needed + sum_list (map snd cands) = qty + sum_list (map snd [])"
        using probe_levels_sum [OF _ _ nn pl] h by simp
      then have "sum_list (map snd cands) = qty" using npos by simp
      then show ?thesis by (simp add: q)
    qed
    show "\<exists>trades s2. add_FOK_order ptr [] s1 = (True, trades, s2)
               \<and> map trade_quantity trades = map snd cands
               \<and> (0 \<le> qty \<and> qty \<le> LLONG_MAX
                    \<and> (\<forall>q \<in> set (book_orders (side_book (other_side sd) s1)).
                          0 \<le> display (deref s1 q))
                    \<longrightarrow> sum_list (map trade_quantity trades) = qty)"
      using fok q total by blast
  }
qed

lemma ObjectPool_6:
  "ObjectPool 6 = \<lparr> pool = [Order_default, Order_default, Order_default, Order_default, Order_default, Order_default],
       available = [5, 4, 3, 2, 1, 0], pool_size = 6, allocated_count = 0, valid_objects = {0, 1, 2, 3, 4, 5} \<rparr>"
  by (auto simp add: ObjectPool_def eval_nat_numeral)

lemma ObjectPool_0:
  "ObjectPool 0 = \<lparr> pool = [], available = [], pool_size = 0, allocated_count = 0,
       valid_objects = {} \<rparr>"
  by (simp add: ObjectPool_def)

lemma ObjectPool_4:
  "ObjectPool 4 = \<lparr> pool = [Order_default, Order_default, Order_default, Order_default],
       available = [3, 2, 1, 0], pool_size = 4, allocated_count = 0, valid_objects = {0, 1, 2, 3} \<rparr>"
  by (auto simp add: ObjectPool_def eval_nat_numeral)

lemma match_level_numeral:
  "match_level (numeral k) is_limit sd order_ptr best_price trades s =
     (case map_find best_price (side_book (other_side sd) s) of
        None \<Rightarrow> Some (trades, s)
      | Some level \<Rightarrow>
          if display (deref s order_ptr) > 0 \<and> \<not> PriceLevel_empty level
          then
            (let passive = PriceLevel_front level
             in if ownerID (deref s order_ptr) = ownerID (deref s passive)
                then match_level (pred_numeral k) is_limit sd order_ptr best_price trades
                       (self_trade is_limit sd best_price level passive s)
                else (case fill_front sd order_ptr best_price level passive trades s of
                        (trades', s') \<Rightarrow>
                          match_level (pred_numeral k) is_limit sd order_ptr best_price trades' s'))
          else Some (trades, s))"
  unfolding numeral_eq_Suc by (rule match_level.simps(2))

lemma match_book_numeral:
  "match_book (numeral k) limit sd order_ptr trades s =
     (if display (deref s order_ptr) > 0 \<and> side_book (other_side sd) s \<noteq> []
      then
        (let best_price = fst (hd (side_book (other_side sd) s))
         in if price_break limit sd best_price then Some (trades, s)
            else (case match_level (pred_numeral k) (limit \<noteq> None) sd order_ptr best_price trades s of
                    None \<Rightarrow> None
                  | Some (trades', s') \<Rightarrow>
                      match_book (pred_numeral k) limit sd order_ptr trades'
                        (set_side_book (other_side sd)
                           (cleanup_empty_level best_price (side_book (other_side sd) s')) s')))
      else Some (trades, s))"
  unfolding numeral_eq_Suc by (rule match_book.simps(2))

lemmas eval_cong = let_weak_cong prod.case_cong_weak option.case_cong_weak list.case_cong_weak if_weak_cong

lemmas book_eval = add_order_def add_order_init_def OrderBook_new_def acquire_def upd_order_def
  deref_def Order_new_def round_if_positive_def Order_default_def Let_def release_order_def release_def
  reset_order_def erase_order_id_def side_lt_def side_book_def set_side_book_def other_side_def map_put_def
  execute_trade_def handle_iceberg_refill_def cleanup_empty_level_def cancel_order_def retire_front_def
  fill_front_def self_trade_def price_break_def add_market_order_def FOK_probe_def FOK_retire_def FOK_fill_def
  add_FOK_order_def process_triggered_stops_def add_trade_stats_def map_find_def map_erase_def
  PriceLevel_new_def PriceLevel_front_def PriceLevel_pop_front_def PriceLevel_add_order_def PriceLevel_empty_def
  PriceLevel_erase_def StopOrderManager_empty_def add_stop_order_def remove_stop_order_def check_triggered_stops_def
  upto_upper_bound_def from_upper_bound_def upto_lower_bound_def from_lower_bound_def erase_ids_def erase_if_empty_def
  MAX_CASCADE_DEPTH_def ObjectPool_6 ObjectPool_4 step_def match_level_numeral match_book_numeral round_to_tick_def default_rules_def LLONG_MAX_def wrap64_def signed_divide_int_def

lemma two_sided_book_reached:
  "step (add_order 4 True 0 False 8 SELL 200 5 5 0 GTC 2 0 0)
     (step (add_order 4 True 0 False 7 BUY 100 10 10 0 GTC 1 0 0) (Some (OrderBook_new 4)))
   = Some two_sided_book"
  by (simp add: book_eval two_sided_book_def cong: eval_cong)

lemma two_sided_book_wf: "pool_wf (order_pool two_sided_book)"
  by (auto simp: pool_wf_def two_sided_book_def)

lemma round_if_positive_100: "round_if_positive 100 = 100"
  by (simp add: round_if_positive_def round_default_unit)

text \<open>
  A bid of 4 at 100 with the new id 9 joins the level of the resting bid of
  \<open>two_sided_book\<close> and is cancelled again.
\<close>

theorem cancel_after_add_witness:
  "\<exists>s1 s2.
     add_order (Suc 0) True 0 False 9 BUY 100 4 4 0 GTC 1 0 0 two_sided_book = Some ([], s1)
     \<and> cancel_order 9 s1 = (True, s2)
     \<and> bids s2 = bids two_sided_book \<and> asks s2 = asks two_sided_book
     \<and> orders s2 = orders two_sided_book
     \<and> allocated_count (order_pool s2) = allocated_count (order_pool two_sided_book)"
proof -
  have h1: "GTC = GTC \<or> GTC = ICEBERG" by simp
  have h2: "(0::int) < 4" by simp
  have h3: "side_book (other_side BUY) two_sided_book = []
            \<or> price_break (Some 100) BUY (fst (hd (side_book (other_side BUY) two_sided_book)))"
    by (simp add: side_book_def other_side_def two_sided_book_def price_break_def)
  have h4: "orders two_sided_book 9 = None" by (simp add: two_sided_book_def)
  have h5: "(0::int) < 100 \<longrightarrow> round_if_positive 100 = 100" by (simp add: round_if_positive_100)
  have h7: "book_sorted BUY (side_book BUY two_sided_book)"
    by (simp add: book_sorted_def side_book_def two_sided_book_def)
  have h8: "\<forall>level. map_find 100 (side_book BUY two_sided_book) = Some level \<longrightarrow>
              \<not> PriceLevel_empty level
              \<and> fst (acquire (order_pool two_sided_book)) \<notin> set (PriceLevel_queue level)"
    by (simp add: side_book_def two_sided_book_def map_find_def PriceLevel_empty_def
          PriceLevel_queue_def acquire_def)
  show ?thesis
    by (rule cancel_after_add [OF h1 h2 h3 h4 h5 two_sided_book_wf h7 h8])
qed

lemmas init_eval = add_order_init_def acquire_def upd_order_def deref_def Order_new_def
  round_if_positive_def Order_default_def Let_def side_book_def other_side_def FOK_probe_def
  two_sided_book_def round_to_tick_def default_rules_def LLONG_MAX_def wrap64_def
  signed_divide_int_def book_orders_def PriceLevel_queue_def

text \<open>
  Against \<open>two_sided_book\<close>, whose only ask is 5 at 200, a FOK bid for 10 at 200 is
  killed, and a FOK bid for 5 at 200 is filled with one trade of 5. On a new book without
  pool objects the FOK bid for 10 is killed and leaves a pool of one free object.
\<close>

theorem FOK_all_or_nothing_witness:
  "(\<exists>s'. add_order 0 True 0 False 9 BUY 200 10 10 0 FOK 5 0 0 two_sided_book = Some ([], s')
        \<and> bids s' = bids two_sided_book \<and> asks s' = asks two_sided_book
        \<and> orders s' = orders two_sided_book
        \<and> allocated_count (order_pool s') = allocated_count (order_pool two_sided_book)
        \<and> available (order_pool s') = available (order_pool two_sided_book)
        \<and> length (pool (order_pool s')) = 4
        \<and> (\<forall>q < 4. q \<noteq> 1
              \<longrightarrow> pool (order_pool s') ! q = pool (order_pool two_sided_book) ! q))
   \<and> (\<exists>s'. add_order 0 True 0 False 9 BUY 200 10 10 0 FOK 5 0 0 (OrderBook_new 0) = Some ([], s')
        \<and> bids s' = [] \<and> asks s' = [] \<and> orders s' = Map.empty
        \<and> allocated_count (order_pool s') = 0
        \<and> available (order_pool s') = [0]
        \<and> length (pool (order_pool s')) = Suc 0)
   \<and> (\<exists>trades s2.
        add_FOK_order (fst (add_order_init 0 False 9 BUY 200 5 5 0 FOK 5 0 0 two_sided_book)) []
          (snd (add_order_init 0 False 9 BUY 200 5 5 0 FOK 5 0 0 two_sided_book))
          = (True, trades, s2)
        \<and> map trade_quantity trades = [5]
        \<and> sum_list (map trade_quantity trades) = 5)"
proof -
  let ?A = "add_order_init 0 False 9 BUY 200 10 10 0 FOK 5 0 0 two_sided_book"
  let ?B = "add_order_init 0 False 9 BUY 200 5 5 0 FOK 5 0 0 two_sided_book"
  let ?C = "add_order_init 0 False 9 BUY 200 10 10 0 FOK 5 0 0 (OrderBook_new 0)"
  have iA: "?A = (fst ?A, snd ?A)" and iB: "?B = (fst ?B, snd ?B)"
    and iC: "?C = (fst ?C, snd ?C)" by simp_all
  have ptrA: "fst ?A = 1" by (simp add: init_eval)
  have pA: "FOK_probe (fst ?A) (snd ?A) = (5, [(2, 5)])"
    by (simp add: init_eval cong: eval_cong)
  have pB: "FOK_probe (fst ?B) (snd ?B) = (0, [(2, 5)])"
    by (simp add: init_eval cong: eval_cong)
  have pC: "FOK_probe (fst ?C) (snd ?C) = (10, [])"
    by (simp add: init_eval OrderBook_new_def ObjectPool_def cong: eval_cong)
  have nnB: "\<forall>q \<in> set (book_orders (side_book (other_side BUY) (snd ?B))). 0 \<le> display (deref (snd ?B) q)"
    by (simp add: init_eval cong: eval_cong)
  have lenA: "length (pool (order_pool two_sided_book)) = 4"
    "available (order_pool two_sided_book) \<noteq> []"
    by (simp_all add: two_sided_book_def)
  have new0: "available (order_pool (OrderBook_new 0)) = []"
    "pool (order_pool (OrderBook_new 0)) = []"
    "bids (OrderBook_new 0) = []" "asks (OrderBook_new 0) = []"
    "orders (OrderBook_new 0) = Map.empty"
    "allocated_count (order_pool (OrderBook_new 0)) = 0"
    by (simp_all add: OrderBook_new_def ObjectPool_def)
  show ?thesis
    using FOK_all_or_nothing [OF two_sided_book_wf iA pA, of 0]
      FOK_all_or_nothing [OF two_sided_book_wf iB pB, of 0]
      FOK_all_or_nothing [OF OrderBook_new_0_wf iC pC, of 0] nnB
    by (simp add: ptrA lenA new0 LLONG_MAX_def) blast
qed

text \<open>
  C1 fails for the keys of the level maps. \<open>add_order\<close> stores the rounded price in the
  order, but files the order under the \<open>price\<close> argument as it was passed: a GTC bid at
  100002 rests with \<open>price = 100000\<close> in the bid level 100002, and 100002 is not a valid
  tick price.
\<close>

theorem level_key_not_rounded:
  "map_option (\<lambda>s. (map fst (bids s), price (deref s 3), orders s 1)) misaligned_bid
     = Some ([100002], 100000, Some 3)
   \<and> round_to_tick default_rules 100002 = 100000
   \<and> \<not> is_valid_price default_rules 100002"
  by (simp add: misaligned_bid_def book_eval is_valid_price_def cong: eval_cong)

text \<open>
  C3 fails. With four sell stops at 100 and a bid of 10 at 100 resting, a market sell of 1
  trades at 100 and all four stops are converted and executed in the same call: the call
  returns five trades and \<open>totalStopTriggered\<close> goes from 0 to 4, above
  \<open>MAX_CASCADE_DEPTH\<close>. The depth counter is back at 0 after every stop, so the guard at
  the head of \<open>process_triggered_stops\<close> never holds.
\<close>

theorem cascade_processes_four_stops:
  "map_option (\<lambda>s. (totalStopTriggered (stats s), map fst (sell_stops (stop_manager s))))
     four_stops_book = Some (0, [100])
   \<and> (case four_stops_book of
        None \<Rightarrow> None
      | Some s \<Rightarrow>
          map_option (\<lambda>(trades, s'). (map sell_id trades, totalStopTriggered (stats s'),
                                     stop_cascade_depth s'))
            (add_order 4 True 0 False 6 SELL 0 1 1 0 MARKET 21 0 0 s))
     = Some ([6, 1, 2, 3, 4], 4, 0)
   \<and> MAX_CASCADE_DEPTH = 3"
  by (simp add: four_stops_book_def book_eval cong: eval_cong)

text \<open>
  C5 as stated fails for an order whose id is already in the id index. In
  \<open>two_sided_book\<close> the id 7 designates the resting bid in object 3. A second bid with id
  7, at 90, comes to rest and overwrites the index entry; cancelling id 7 restores the
  bids, but leaves the index without an entry for id 7.
\<close>

theorem cancel_after_add_duplicate_id:
  "orders two_sided_book 7 = Some 3
   \<and> map_option (\<lambda>(trades, s1). (trades, map fst (bids s1), orders s1 7,
                    case cancel_order 7 s1 of
                      (found, s2) \<Rightarrow> (found, bids s2 = bids two_sided_book, orders s2 7)))
       (add_order 4 True 0 False 7 BUY 90 4 4 0 GTC 1 0 0 two_sided_book)
     = Some ([], [100, 90], Some 1, True, True, None)"
  by (simp add: book_eval two_sided_book_def cong: eval_cong)

text \<open>
  C2 as stated fails in three ways. A FOK order with a negative quantity, which
  \<open>add_order\<close> does not reject: the probe starts and ends with \<open>needed = -5\<close>, which is
  not positive, so the order counts as filled, yet no trade is emitted and the quantities
  sum to 0. A resting order with a negative display: in \<open>negative_display_book\<close> the
  iceberg ask has been refilled to a display of \<open>-1\<close>, a FOK bid for 9223372036854775807
  takes \<open>min needed (-1) = -1\<close> from it, \<open>needed\<close> wraps around to a negative number, and
  the order counts as filled with one trade of \<open>-1\<close>. A pool without a free object: the
  killed FOK order leaves the pool with one object more, which is free.
\<close>

theorem FOK_all_or_nothing_counterexample:
  "(case add_order_init 0 False 1 BUY 100 (- 5) (- 5) 0 FOK 1 0 0 (OrderBook_new 4) of
      (ptr, s1) \<Rightarrow> (FOK_probe ptr s1, case add_FOK_order ptr [] s1 of
                        (filled, trades, s2) \<Rightarrow> (filled, trades)))
     = ((- 5, []), True, [])
   \<and> map_option fst (add_order 4 True 0 False 1 BUY 100 (- 5) (- 5) 0 FOK 1 0 0 (OrderBook_new 4))
     = Some []
   \<and> map_option (\<lambda>s. (asks s, display (deref s 3), remaining (deref s 3), orders s 1))
        negative_display_book
     = Some ([(100, \<lparr> mm_orders = [], regular_orders = [3] \<rparr>)], - 1, 16, Some 3)
   \<and> traded (add_order 4 True 0 False 3 BUY 100 9223372036854775807 9223372036854775807 0 FOK 3 0 0)
        negative_display_book
     = Some [\<lparr> buy_id = 3, sell_id = 1, trade_price = 100, trade_quantity = - 1 \<rparr>]
   \<and> available (order_pool (OrderBook_new 0)) = []
   \<and> pool (order_pool (OrderBook_new 0)) = []
   \<and> map_option (\<lambda>r. (fst r, available (order_pool (snd r)), length (pool (order_pool (snd r)))))
        (add_order 4 True 0 False 1 BUY 100 5 5 0 FOK 1 0 0 (OrderBook_new 0))
     = Some ([], [0], 1)"
  by (simp add: negative_display_book_def traded_def book_eval ObjectPool_0 cong: eval_cong)

text \<open>
  The refill in the limit and in the market loop. Let the front passive order of the
  level at \<open>best_price\<close> be an ICEBERG order whose display has reached zero. If its
  remainder is positive, its display becomes \<open>min remaining display_size\<close>, its remainder
  is decremented by that display, and the same pool object is appended to the sublist of
  that level that \<open>is_market_maker\<close> selects; the id index and the pool's allocation are
  unchanged. If its remainder is not positive, it is erased from the id index and released.
\<close>

lemma retire_front_refill:
  assumes ice: "otype (deref s passive_ptr) = ICEBERG"
      and inpool: "passive_ptr < length (pool (order_pool s))"
      and found: "map_find best_price (side_book (other_side sd) s) = Some level"
  shows
    "(0 < remaining (deref s passive_ptr) \<longrightarrow>
        display (deref (retire_front sd best_price level passive_ptr s) passive_ptr)
          = min (remaining (deref s passive_ptr)) (display_size (deref s passive_ptr))
      \<and> remaining (deref (retire_front sd best_price level passive_ptr s) passive_ptr)
          = wrap64 (remaining (deref s passive_ptr)
                     - min (remaining (deref s passive_ptr)) (display_size (deref s passive_ptr)))
      \<and> (\<exists>level'.
            map_find best_price
              (side_book (other_side sd) (retire_front sd best_price level passive_ptr s))
              = Some level'
            \<and> (if is_market_maker (deref s passive_ptr)
                then mm_orders level' = mm_orders (PriceLevel_pop_front level) @ [passive_ptr]
                     \<and> regular_orders level' = regular_orders (PriceLevel_pop_front level)
                else mm_orders level' = mm_orders (PriceLevel_pop_front level)
                     \<and> regular_orders level'
                         = regular_orders (PriceLevel_pop_front level) @ [passive_ptr]
                     \<and> PriceLevel_queue level'
                         = PriceLevel_queue (PriceLevel_pop_front level) @ [passive_ptr]))
      \<and> orders (retire_front sd best_price level passive_ptr s) = orders s
      \<and> available (order_pool (retire_front sd best_price level passive_ptr s))
          = available (order_pool s)
      \<and> allocated_count (order_pool (retire_front sd best_price level passive_ptr s))
          = allocated_count (order_pool s))
     \<and> (remaining (deref s passive_ptr) \<le> 0 \<longrightarrow>
        orders (retire_front sd best_price level passive_ptr s)
          = (orders s)(order_id (deref s passive_ptr) := None)
      \<and> order_pool (retire_front sd best_price level passive_ptr s)
          = release (Some passive_ptr) (order_pool s)
      \<and> map_find best_price
            (side_book (other_side sd) (retire_front sd best_price level passive_ptr s))
          = Some (PriceLevel_pop_front level))"
proof -
  have put: "map_find best_price (map_put best_price v (side_book (other_side sd) s)) = Some v" for v
    using found by (rule map_find_map_put)
  show ?thesis
    using assms put
    by (cases sd)
       (auto simp: retire_front_def handle_iceberg_refill_def Let_def deref_def side_book_def
          set_side_book_def other_side_def PriceLevel_add_order_def release_order_def
          erase_order_id_def PriceLevel_queue_def)
qed

text \<open>
  C6 fails in the FOK path for an iceberg that \<open>add_order\<close> has filed under a price
  between two ticks. In \<open>unaligned_iceberg_book\<close> the iceberg ask (object 5, id 1) rests
  in front of the ask id 2 (object 4) in the level 100002, with \<open>price = 100000\<close> in the
  order. A FOK bid consumes its slice of 5. The commit looks the level up under the
  order's price, creates the level 100000 and puts the refilled iceberg there: the
  iceberg is still in the level 100002, in front of id 2, and the next bid trades with it
  again. In \<open>aligned_iceberg_book\<close> the refilled iceberg is behind id 2, which trades next.
\<close>

theorem iceberg_refill_other_level:
  "map_option (\<lambda>s. (asks s, price (deref s 5), display (deref s 5), remaining (deref s 5),
                    is_market_maker (deref s 5)))
     unaligned_iceberg_book
     = Some ([(100002, \<lparr> mm_orders = [], regular_orders = [5, 4] \<rparr>)], 100000, 5, 20, False)
   \<and> traded (add_order 4 True 0 False 3 BUY 100005 5 5 0 FOK 3 0 0) unaligned_iceberg_book
     = Some [\<lparr> buy_id = 3, sell_id = 1, trade_price = 100000, trade_quantity = 5 \<rparr>]
   \<and> map_option (\<lambda>s. (asks s, display (deref s 5), remaining (deref s 5)))
       (step (add_order 4 True 0 False 3 BUY 100005 5 5 0 FOK 3 0 0) unaligned_iceberg_book)
     = Some ([(100000, \<lparr> mm_orders = [], regular_orders = [5] \<rparr>),
              (100002, \<lparr> mm_orders = [], regular_orders = [5, 4] \<rparr>)], 5, 10)
   \<and> traded (add_order 4 True 0 False 4 BUY 100005 5 5 0 GTC 4 0 0)
       (step (add_order 4 True 0 False 3 BUY 100005 5 5 0 FOK 3 0 0) unaligned_iceberg_book)
     = Some [\<lparr> buy_id = 4, sell_id = 1, trade_price = 100000, trade_quantity = 5 \<rparr>]
   \<and> map_option (\<lambda>s. (asks s, display (deref s 5), remaining (deref s 5)))
       (step (add_order 4 True 0 False 3 BUY 100005 5 5 0 FOK 3 0 0) aligned_iceberg_book)
     = Some ([(100000, \<lparr> mm_orders = [], regular_orders = [4, 5] \<rparr>)], 5, 10)
   \<and> traded (add_order 4 True 0 False 4 BUY 100005 5 5 0 GTC 4 0 0)
       (step (add_order 4 True 0 False 3 BUY 100005 5 5 0 FOK 3 0 0) aligned_iceberg_book)
     = Some [\<lparr> buy_id = 4, sell_id = 2, trade_price = 100000, trade_quantity = 5 \<rparr>]"
  by (simp add: unaligned_iceberg_book_def aligned_iceberg_book_def traded_def book_eval
        cong: eval_cong)

section \<open>Self-trade prevention\<close>

lemma no_self_trade_append:
  "no_self_trade (us @ vs) \<longleftrightarrow> no_self_trade us \<and> no_self_trade vs"
  by (simp add: no_self_trade_def)

lemma execute_trade_updates:
  "position_updates (snd (execute_trade a p qty s))
     = position_updates s
       @ [(if side (deref s a) = BUY then ownerID (deref s a) else ownerID (deref s p),
           if side (deref s a) = SELL then ownerID (deref s a) else ownerID (deref s p),
           fst (execute_trade a p qty s))]"
  by (simp add: execute_trade_def Let_def)

lemma execute_trade_no_self:
  "ownerID (deref s a) \<noteq> ownerID (deref s p) \<Longrightarrow>
     \<exists>u. position_updates (snd (execute_trade a p qty s)) = position_updates s @ [u]
         \<and> fst u \<noteq> fst (snd u) \<and> snd (snd u) = fst (execute_trade a p qty s)"
  by (cases "side (deref s a)") (auto simp: execute_trade_updates)

lemma position_updates_frame:
  "position_updates (upd_order ptr f s) = position_updates s"
  "position_updates (release_order ptr s) = position_updates s"
  "position_updates (erase_order_id i s) = position_updates s"
  "position_updates (set_side_book sd m s) = position_updates s"
  by (simp_all add: upd_order_def release_order_def erase_order_id_def set_side_book_def)

lemma position_updates_cancel_order:
  "position_updates (snd (cancel_order i s)) = position_updates s"
  by (auto simp: cancel_order_def Let_def position_updates_frame split: option.splits)

lemma position_updates_retire_front:
  "position_updates (retire_front sd bp level p s) = position_updates s"
  by (auto simp: retire_front_def Let_def position_updates_frame split: prod.splits)

lemma position_updates_self_trade:
  "position_updates (self_trade is_limit sd bp level p s) = position_updates s"
  by (simp add: self_trade_def Let_def position_updates_frame position_updates_cancel_order)

lemma fill_front_updates:
  assumes "ownerID (deref s order_ptr) \<noteq> ownerID (deref s p)"
      and "fill_front sd order_ptr bp level p trades s = (trades', s')"
  shows "\<exists>u. position_updates s' = position_updates s @ [u] \<and> fst u \<noteq> fst (snd u)
             \<and> trades' = trades @ [snd (snd u)]"
proof -
  let ?q = "min (display (deref s order_ptr)) (display (deref s p))"
  obtain u where u: "position_updates (snd (execute_trade order_ptr p ?q s)) = position_updates s @ [u]"
    "fst u \<noteq> fst (snd u)" "snd (snd u) = fst (execute_trade order_ptr p ?q s)"
    using execute_trade_no_self [OF assms(1)] by blast
  have "position_updates s' = position_updates (snd (execute_trade order_ptr p ?q s))"
    and "trades' = trades @ [fst (execute_trade order_ptr p ?q s)]"
    using assms(2)
    by (auto simp: fill_front_def Let_def position_updates_frame position_updates_retire_front
          split: prod.splits if_splits)
  then show ?thesis using u by auto
qed

lemma match_level_no_self_trade:
  "match_level fuel is_limit sd order_ptr bp trades s = Some (trades', s') \<Longrightarrow>
     \<exists>us. position_updates s' = position_updates s @ us \<and> no_self_trade us
          \<and> trades' = trades @ map (\<lambda>u. snd (snd u)) us"
proof (induction fuel arbitrary: trades s)
  case 0
  then show ?case by simp
next
  case (Suc fuel)
  show ?case
  proof (cases "map_find bp (side_book (other_side sd) s)")
    case None
    then have "trades' = trades" "s' = s" using Suc.prems by simp_all
    then show ?thesis by (simp add: no_self_trade_def)
  next
    case (Some level)
    show ?thesis
    proof (cases "display (deref s order_ptr) > 0 \<and> \<not> PriceLevel_empty level")
      case False
      then have "trades' = trades" "s' = s" using Suc.prems Some by auto
      then show ?thesis by (simp add: no_self_trade_def)
    next
      case True
      let ?p = "PriceLevel_front level"
      show ?thesis
      proof (cases "ownerID (deref s order_ptr) = ownerID (deref s ?p)")
        case same: True
        have "match_level fuel is_limit sd order_ptr bp trades
                (self_trade is_limit sd bp level ?p s) = Some (trades', s')"
          using Suc.prems Some True same by (simp add: Let_def)
        from Suc.IH [OF this] show ?thesis
          by (simp add: position_updates_self_trade)
      next
        case differ: False
        obtain t1 s1 where ff: "fill_front sd order_ptr bp level ?p trades s = (t1, s1)"
          by (cases "fill_front sd order_ptr bp level ?p trades s")
        have rec: "match_level fuel is_limit sd order_ptr bp t1 s1 = Some (trades', s')"
          using Suc.prems Some True differ ff by (simp add: Let_def)
        obtain u where u: "position_updates s1 = position_updates s @ [u]" "fst u \<noteq> fst (snd u)"
          "t1 = trades @ [snd (snd u)]"
          using fill_front_updates [OF differ ff] by blast
        obtain us where us: "position_updates s' = position_updates s1 @ us" "no_self_trade us"
          "trades' = t1 @ map (\<lambda>u. snd (snd u)) us"
          using Suc.IH [OF rec] by blast
        show ?thesis
          using u us
          by (intro exI [of _ "u # us"]) (simp add: no_self_trade_def)
      qed
    qed
  qed
qed

lemma match_book_no_self_trade:
  "match_book fuel limit sd order_ptr trades s = Some (trades', s') \<Longrightarrow>
     \<exists>us. position_updates s' = position_updates s @ us \<and> no_self_trade us
          \<and> trades' = trades @ map (\<lambda>u. snd (snd u)) us"
proof (induction fuel arbitrary: trades s)
  case 0
  then show ?case by simp
next
  case (Suc fuel)
  show ?case
  proof (cases "display (deref s order_ptr) > 0 \<and> side_book (other_side sd) s \<noteq> []")
    case False
    then have "trades' = trades" "s' = s" using Suc.prems by auto
    then show ?thesis by (simp add: no_self_trade_def)
  next
    case True
    let ?bp = "fst (hd (side_book (other_side sd) s))"
    show ?thesis
    proof (cases "price_break limit sd ?bp")
      case brk: True
      then have "trades' = trades" "s' = s" using Suc.prems True by (simp_all add: Let_def)
      then show ?thesis by (simp add: no_self_trade_def)
    next
      case nobrk: False
      obtain t1 s1 where ml: "match_level fuel (limit \<noteq> None) sd order_ptr ?bp trades s = Some (t1, s1)"
        using Suc.prems True nobrk by (auto simp: Let_def split: option.splits)
      let ?s2 = "set_side_book (other_side sd)
                   (cleanup_empty_level ?bp (side_book (other_side sd) s1)) s1"
      have rec: "match_book fuel limit sd order_ptr t1 ?s2 = Some (trades', s')"
        using Suc.prems True nobrk ml by (simp add: Let_def)
      obtain us1 where us1: "position_updates s1 = position_updates s @ us1" "no_self_trade us1"
        "t1 = trades @ map (\<lambda>u. snd (snd u)) us1"
        using match_level_no_self_trade [OF ml] by blast
      obtain us2 where us2: "position_updates s' = position_updates ?s2 @ us2" "no_self_trade us2"
        "trades' = t1 @ map (\<lambda>u. snd (snd u)) us2"
        using Suc.IH [OF rec] by blast
      show ?thesis
        using us1 us2
        by (intro exI [of _ "us1 @ us2"]) (simp add: no_self_trade_append position_updates_frame)
    qed
  qed
qed

lemma map_find_map_erase: "map_find k (map_erase k' m) = (if k = k' then None else map_find k m)"
  by (induction m) (auto simp: map_find_def map_erase_def)

lemma map_find_map_put_other: "k \<noteq> k' \<Longrightarrow> map_find k (map_put k' v m) = map_find k m"
  by (induction m) (auto simp: map_find_def map_put_def)

lemma PriceLevel_erase_absent:
  "ptr \<notin> set (PriceLevel_queue level) \<Longrightarrow> PriceLevel_erase ptr level = level"
  by (simp add: PriceLevel_erase_def PriceLevel_queue_def remove1_idem)

lemma PriceLevel_queue_front:
  "\<not> PriceLevel_empty level \<Longrightarrow>
     PriceLevel_queue level = PriceLevel_front level # PriceLevel_queue (PriceLevel_pop_front level)"
  by (cases "mm_orders level"; cases "regular_orders level")
     (simp_all add: PriceLevel_empty_def PriceLevel_queue_def PriceLevel_front_def
        PriceLevel_pop_front_def)

lemma self_trade_market:
  assumes found: "map_find bp (side_book (other_side sd) s) = Some level"
  shows "position_updates (self_trade False sd bp level p s) = position_updates s"
    and "orders (self_trade False sd bp level p s) = (orders s)(order_id (deref s p) := None)"
    and "order_pool (self_trade False sd bp level p s) = release (Some p) (order_pool s)"
    and "map_find bp (side_book (other_side sd) (self_trade False sd bp level p s))
           = Some (PriceLevel_pop_front level)"
  using map_find_map_put [OF found, of "PriceLevel_pop_front level"]
  by (simp_all add: self_trade_def Let_def release_order_def erase_order_id_def
        set_side_book_frame side_book_frame deref_def)

lemma cancel_order_side_book:
  assumes "orders s i = Some p"
  shows "side_book sd' (snd (cancel_order i s)) =
     (if otype (deref s p) \<noteq> STOP_LOSS \<and> side (deref s p) = sd'
      then (case map_find (price (deref s p)) (side_book sd' s) of
              None \<Rightarrow> side_book sd' s
            | Some l \<Rightarrow> if PriceLevel_empty (PriceLevel_erase p l)
                        then map_erase (price (deref s p)) (side_book sd' s)
                        else map_put (price (deref s p)) (PriceLevel_erase p l) (side_book sd' s))
      else side_book sd' s)"
proof (cases "otype (deref s p) = STOP_LOSS")
  case True
  then show ?thesis
    using assms
    by (simp add: cancel_order_def Let_def side_book_def release_order_def erase_order_id_def)
next
  case False
  show ?thesis
  proof (cases "map_find (price (deref s p)) (side_book (side (deref s p)) s)")
    case None
    then show ?thesis
      using assms False
      by (auto simp: cancel_order_def Let_def side_book_frame)
  next
    case (Some l)
    show ?thesis
      using cancel_order_found [OF assms False Some] Some False
      by (cases sd'; cases "side (deref s p)")
         (simp_all add: side_book_def set_side_book_def release_order_def erase_order_id_def)
  qed
qed

lemma self_trade_limit:
  assumes found: "map_find bp (side_book (other_side sd) s) = Some level"
      and index: "orders s (order_id (deref s p)) = Some p"
      and nodup: "p \<notin> set (PriceLevel_queue (PriceLevel_pop_front level))"
  shows "position_updates (self_trade True sd bp level p s) = position_updates s"
    and "orders (self_trade True sd bp level p s) = (orders s)(order_id (deref s p) := None)"
    and "order_pool (self_trade True sd bp level p s) = release (Some p) (order_pool s)"
    and "map_find bp (side_book (other_side sd) (self_trade True sd bp level p s))
             = Some (PriceLevel_pop_front level)
         \<or> map_find bp (side_book (other_side sd) (self_trade True sd bp level p s)) = None
           \<and> PriceLevel_empty (PriceLevel_pop_front level)"
proof -
  let ?s1 = "set_side_book (other_side sd)
               (map_put bp (PriceLevel_pop_front level) (side_book (other_side sd) s)) s"
  have d1: "deref ?s1 p = deref s p" by (simp add: deref_def set_side_book_frame)
  have o1: "orders ?s1 (order_id (deref s p)) = Some p"
    using index by (simp add: set_side_book_frame)
  have st: "self_trade True sd bp level p s = snd (cancel_order (order_id (deref s p)) ?s1)"
    by (simp add: self_trade_def Let_def d1)
  have f1: "map_find bp (side_book (other_side sd) ?s1) = Some (PriceLevel_pop_front level)"
    using map_find_map_put [OF found] by (simp add: set_side_book_frame)
  show "position_updates (self_trade True sd bp level p s) = position_updates s"
    by (simp add: position_updates_self_trade)
  show "orders (self_trade True sd bp level p s) = (orders s)(order_id (deref s p) := None)"
    unfolding st using o1
    by (auto simp: cancel_order_def Let_def d1 erase_order_id_def release_order_def
          set_side_book_frame split: option.splits)
  show "order_pool (self_trade True sd bp level p s) = release (Some p) (order_pool s)"
    unfolding st using o1
    by (auto simp: cancel_order_def Let_def d1 erase_order_id_def release_order_def
          set_side_book_frame split: option.splits)
  show "map_find bp (side_book (other_side sd) (self_trade True sd bp level p s))
             = Some (PriceLevel_pop_front level)
         \<or> map_find bp (side_book (other_side sd) (self_trade True sd bp level p s)) = None
           \<and> PriceLevel_empty (PriceLevel_pop_front level)"
  proof -
    let ?b1 = "side_book (other_side sd) ?s1"
    let ?pr = "price (deref s p)"
    have sb: "side_book (other_side sd) (snd (cancel_order (order_id (deref s p)) ?s1)) =
        (if otype (deref s p) \<noteq> STOP_LOSS \<and> side (deref s p) = other_side sd
         then (case map_find ?pr ?b1 of
                 None \<Rightarrow> ?b1
               | Some l \<Rightarrow> if PriceLevel_empty (PriceLevel_erase p l)
                           then map_erase ?pr ?b1
                           else map_put ?pr (PriceLevel_erase p l) ?b1)
         else ?b1)"
      by (rule cancel_order_side_book [OF o1, of "other_side sd", unfolded d1])
    show ?thesis
    proof (cases "otype (deref s p) \<noteq> STOP_LOSS \<and> side (deref s p) = other_side sd")
      case False
      then show ?thesis unfolding st sb using f1 by auto
    next
      case True
      show ?thesis
      proof (cases "map_find ?pr ?b1")
        case None
        then show ?thesis unfolding st sb using f1 True by simp
      next
        case (Some l)
        show ?thesis
        proof (cases "?pr = bp")
          case same: True
          then have l: "l = PriceLevel_pop_front level" using Some f1 by simp
          have e: "PriceLevel_erase p (PriceLevel_pop_front level) = PriceLevel_pop_front level"
            by (rule PriceLevel_erase_absent [OF nodup])
          show ?thesis
            unfolding st sb using True Some same f1
            by (simp add: e l map_find_map_erase map_find_map_put)
        next
          case other: False
          then show ?thesis
            unfolding st sb using True Some f1
            by (simp add: map_find_map_erase map_find_map_put_other)
        qed
      qed
    qed
  qed
qed

lemma ownerID_upd_order:
  assumes "\<And>x. ownerID (f x) = ownerID x"
  shows "ownerID (deref (upd_order ptr f s) q) = ownerID (deref s q)"
proof (cases "q = ptr \<and> ptr < length (pool (order_pool s))")
  case True
  then show ?thesis using assms by (simp add: deref_def upd_order_def)
next
  case False
  then show ?thesis by (auto simp: deref_def upd_order_def list_update_beyond)
qed

lemma deref_release_order: "q \<noteq> ptr \<Longrightarrow> deref (release_order ptr s) q = deref s q"
  by (simp add: deref_def release_order_def release_def)

lemma deref_frame:
  "deref (erase_order_id i s) q = deref s q"
  "deref (set_side_book sd m s) q = deref s q"
  by (simp_all add: deref_def erase_order_id_def set_side_book_frame)

lemma deref_execute_trade: "deref (snd (execute_trade a p qty s)) q = deref s q"
  by (simp add: execute_trade_def Let_def deref_def)

lemma ownerID_handle_iceberg_refill:
  "ownerID (snd (snd (handle_iceberg_refill ptr level mem)) ! q) = ownerID (mem ! q)"
proof (cases "q = ptr \<and> ptr < length mem")
  case True
  then show ?thesis by (simp add: handle_iceberg_refill_def Let_def)
next
  case False
  then show ?thesis by (auto simp: handle_iceberg_refill_def Let_def list_update_beyond)
qed

lemma FOK_retire_owner:
  assumes "q \<noteq> p"
  shows "ownerID (deref (FOK_retire p s) q) = ownerID (deref s q)"
proof -
  let ?level0 = "case map_find (price (deref s p)) (side_book (side (deref s p)) s) of
                   None \<Rightarrow> PriceLevel_new | Some l \<Rightarrow> l"
  obtain r level' mem' where h:
    "handle_iceberg_refill p (PriceLevel_erase p ?level0) (pool (order_pool s)) = (r, level', mem')"
    by (cases "handle_iceberg_refill p (PriceLevel_erase p ?level0) (pool (order_pool s))")
  have m: "ownerID (mem' ! q) = ownerID (pool (order_pool s) ! q)"
    using ownerID_handle_iceberg_refill [of p "PriceLevel_erase p ?level0" "pool (order_pool s)" q]
    by (simp add: h)
  show ?thesis
    using assms m
    by (simp add: FOK_retire_def Let_def h deref_frame deref_release_order)
       (simp add: deref_def set_side_book_frame)
qed

lemma position_updates_FOK_retire: "position_updates (FOK_retire p s) = position_updates s"
  by (simp add: FOK_retire_def Let_def position_updates_frame split: prod.splits)

lemma FOK_fill_step:
  assumes "FOK_fill order_ptr (p, qty) (trades, s) = (trades', s')"
  shows "q \<noteq> p \<Longrightarrow> ownerID (deref s' q) = ownerID (deref s q)"
    and "ownerID (deref s order_ptr) \<noteq> ownerID (deref s p) \<Longrightarrow>
           \<exists>u. position_updates s' = position_updates s @ [u] \<and> fst u \<noteq> fst (snd u)
               \<and> trades' = trades @ [snd (snd u)]"
proof -
  obtain trade s1 where e: "execute_trade order_ptr p qty s = (trade, s1)"
    by (cases "execute_trade order_ptr p qty s")
  let ?s5 = "upd_order order_ptr (\<lambda>ord. ord\<lparr> remaining := wrap64 (remaining ord - qty) \<rparr>)
              (upd_order order_ptr (\<lambda>ord. ord\<lparr> display := wrap64 (display ord - qty) \<rparr>)
                (upd_order p (\<lambda>ord. ord\<lparr> remaining := wrap64 (remaining ord - qty) \<rparr>)
                  (upd_order p (\<lambda>ord. ord\<lparr> display := wrap64 (display ord - qty) \<rparr>) s1)))"
  have s': "s' = (if display (deref ?s5 p) = 0 then FOK_retire p ?s5 else ?s5)"
    and t': "trades' = trades @ [trade]"
    using assms by (simp_all add: FOK_fill_def e Let_def)
  have o5: "ownerID (deref ?s5 q) = ownerID (deref s q)" for q
    using deref_execute_trade [of order_ptr p qty s q]
    by (simp add: ownerID_upd_order e)
  have u5: "position_updates ?s5 = position_updates s1"
    by (simp add: position_updates_frame)
  show "q \<noteq> p \<Longrightarrow> ownerID (deref s' q) = ownerID (deref s q)"
    by (simp add: s' FOK_retire_owner o5)
  show "\<exists>u. position_updates s' = position_updates s @ [u] \<and> fst u \<noteq> fst (snd u)
           \<and> trades' = trades @ [snd (snd u)]"
    if "ownerID (deref s order_ptr) \<noteq> ownerID (deref s p)"
    using execute_trade_no_self [OF that, of qty]
    by (auto simp: s' t' position_updates_FOK_retire u5 e)
qed

lemma fold_FOK_fill_no_self_trade:
  assumes "distinct (map fst cands)"
      and "\<forall>c \<in> set cands. ownerID (deref s (fst c)) \<noteq> ownerID (deref s order_ptr)"
  shows "\<exists>us. position_updates (snd (fold (FOK_fill order_ptr) cands (trades, s)))
                = position_updates s @ us \<and> no_self_trade us
              \<and> fst (fold (FOK_fill order_ptr) cands (trades, s))
                  = trades @ map (\<lambda>u. snd (snd u)) us"
  using assms
proof (induction cands arbitrary: trades s)
  case Nil
  then show ?case by (simp add: no_self_trade_def)
next
  case (Cons c cands)
  obtain p qty where c: "c = (p, qty)" by (cases c)
  obtain t1 s1 where f: "FOK_fill order_ptr (p, qty) (trades, s) = (t1, s1)"
    by (cases "FOK_fill order_ptr (p, qty) (trades, s)")
  have diff: "ownerID (deref s order_ptr) \<noteq> ownerID (deref s p)"
    using Cons.prems(2) by (auto simp: c)
  then have np: "order_ptr \<noteq> p" by auto
  obtain u where u: "position_updates s1 = position_updates s @ [u]" "fst u \<noteq> fst (snd u)"
    "t1 = trades @ [snd (snd u)]"
    using FOK_fill_step(2) [OF f diff] by blast
  have d: "distinct (map fst cands)" using Cons.prems(1) by simp
  have o: "\<forall>c \<in> set cands. ownerID (deref s1 (fst c)) \<noteq> ownerID (deref s1 order_ptr)"
  proof
    fix c' assume m: "c' \<in> set cands"
    then have "fst c' \<noteq> p" using Cons.prems(1) by (auto simp: c)
    then have "ownerID (deref s1 (fst c')) = ownerID (deref s (fst c'))"
      by (rule FOK_fill_step(1) [OF f])
    moreover have "ownerID (deref s1 order_ptr) = ownerID (deref s order_ptr)"
      using np by (rule FOK_fill_step(1) [OF f])
    ultimately show "ownerID (deref s1 (fst c')) \<noteq> ownerID (deref s1 order_ptr)"
      using Cons.prems(2) m by simp
  qed
  obtain us where us: "position_updates (snd (fold (FOK_fill order_ptr) cands (t1, s1)))
                = position_updates s1 @ us" "no_self_trade us"
    "fst (fold (FOK_fill order_ptr) cands (t1, s1)) = t1 @ map (\<lambda>u. snd (snd u)) us"
    using Cons.IH [OF d o] by blast
  show ?case
    using u us
    by (intro exI [of _ "u # us"]) (simp add: c f no_self_trade_def)
qed

lemma check_orders_cands:
  assumes "check_orders mem order_ptr ps needed cands = (done, needed', cands')"
      and "distinct (map fst cands @ ps @ rest)"
      and "\<forall>c \<in> set cands. ownerID (mem ! fst c) \<noteq> ownerID (mem ! order_ptr)"
  shows "distinct (map fst cands' @ rest)
         \<and> (\<forall>c \<in> set cands'. ownerID (mem ! fst c) \<noteq> ownerID (mem ! order_ptr))"
  using assms
proof (induction ps arbitrary: needed cands)
  case Nil
  then show ?case by simp
next
  case (Cons p ps)
  show ?case
  proof (cases "ownerID (mem ! order_ptr) = ownerID (mem ! p)")
    case True
    then have "check_orders mem order_ptr ps needed cands = (done, needed', cands')"
      using Cons.prems(1) by simp
    moreover have "distinct (map fst cands @ ps @ rest)" using Cons.prems(2) by simp
    ultimately show ?thesis using Cons.IH Cons.prems(3) by blast
  next
    case False
    let ?av = "min needed (display (mem ! p))"
    let ?c1 = "cands @ [(p, ?av)]"
    have d1: "distinct (map fst ?c1 @ ps @ rest)" using Cons.prems(2) by simp
    have o1: "\<forall>c \<in> set ?c1. ownerID (mem ! fst c) \<noteq> ownerID (mem ! order_ptr)"
      using Cons.prems(3) False by auto
    show ?thesis
    proof (cases "wrap64 (needed - ?av) \<le> 0")
      case True
      then have "cands' = ?c1" using Cons.prems(1) False by (simp add: Let_def)
      then show ?thesis using d1 o1 by auto
    next
      case more: False
      then have "check_orders mem order_ptr ps (wrap64 (needed - ?av)) ?c1 = (done, needed', cands')"
        using Cons.prems(1) False by (simp add: Let_def)
      from Cons.IH [OF this d1 o1] show ?thesis .
    qed
  qed
qed

lemma probe_levels_cands:
  assumes "probe_levels mem order_ptr levels needed cands = (needed', cands')"
      and "distinct (map fst cands @ book_orders levels)"
      and "\<forall>c \<in> set cands. ownerID (mem ! fst c) \<noteq> ownerID (mem ! order_ptr)"
  shows "distinct (map fst cands')
         \<and> (\<forall>c \<in> set cands'. ownerID (mem ! fst c) \<noteq> ownerID (mem ! order_ptr))"
  using assms
proof (induction levels arbitrary: needed cands)
  case Nil
  then show ?case by (simp add: book_orders_def)
next
  case (Cons a levels)
  obtain price_level level where a: "a = (price_level, level)" by (cases a)
  have bo: "book_orders (a # levels) = mm_orders level @ regular_orders level @ book_orders levels"
    by (simp add: book_orders_def a PriceLevel_queue_def)
  show ?case
  proof (cases "if side (mem ! order_ptr) = BUY then price_level > price (mem ! order_ptr)
                else price_level < price (mem ! order_ptr)")
    case True
    then have "cands' = cands" using Cons.prems(1) by (auto simp: a split: if_splits)
    then show ?thesis using Cons.prems by simp
  next
    case False
    obtain d1 n1 c1 where r1: "check_orders mem order_ptr (mm_orders level) needed cands = (d1, n1, c1)"
      by (cases "check_orders mem order_ptr (mm_orders level) needed cands") auto
    have i1: "distinct (map fst c1 @ regular_orders level @ book_orders levels)
              \<and> (\<forall>c \<in> set c1. ownerID (mem ! fst c) \<noteq> ownerID (mem ! order_ptr))"
      using check_orders_cands [OF r1, of "regular_orders level @ book_orders levels"] Cons.prems(2,3)
      by (simp add: bo)
    obtain n2 c2 where r2:
      "(if \<not> d1 \<and> n1 > 0
        then snd (check_orders mem order_ptr (regular_orders level) n1 c1) else (n1, c1)) = (n2, c2)"
      by (cases "if \<not> d1 \<and> n1 > 0
        then snd (check_orders mem order_ptr (regular_orders level) n1 c1) else (n1, c1)") auto
    have i2: "distinct (map fst c2 @ book_orders levels)
              \<and> (\<forall>c \<in> set c2. ownerID (mem ! fst c) \<noteq> ownerID (mem ! order_ptr))"
    proof (cases "\<not> d1 \<and> n1 > 0")
      case True
      obtain d2 where "check_orders mem order_ptr (regular_orders level) n1 c1 = (d2, n2, c2)"
        using r2 True by (cases "check_orders mem order_ptr (regular_orders level) n1 c1") auto
      from check_orders_cands [OF this, of "book_orders levels"] show ?thesis
        using i1 by simp
    next
      case False
      then have "c2 = c1" using r2 by auto
      then show ?thesis using i1 by auto
    qed
    show ?thesis
    proof (cases "n2 \<le> 0")
      case True
      then have "cands' = c2" using Cons.prems(1) False r1 r2 by (simp add: a)
      then show ?thesis using i2 by auto
    next
      case more: False
      have "probe_levels mem order_ptr levels n2 c2 = (needed', cands')"
        using Cons.prems(1) False r1 r2 more by (simp add: a)
      from Cons.IH [OF this] show ?thesis using i2 by blast
    qed
  qed
qed

lemma add_FOK_order_no_self_trade:
  assumes "distinct (book_orders (side_book (other_side (side (deref s order_ptr))) s))"
  shows "\<exists>us. position_updates (snd (snd (add_FOK_order order_ptr trades s)))
                = position_updates s @ us \<and> no_self_trade us
              \<and> fst (snd (add_FOK_order order_ptr trades s)) = trades @ map (\<lambda>u. snd (snd u)) us"
    and "\<forall>c \<in> set (snd (FOK_probe order_ptr s)).
           ownerID (deref s (fst c)) \<noteq> ownerID (deref s order_ptr)"
proof -
  obtain needed cands where p: "FOK_probe order_ptr s = (needed, cands)"
    by (cases "FOK_probe order_ptr s")
  have c: "distinct (map fst cands)
           \<and> (\<forall>c \<in> set cands. ownerID (deref s (fst c)) \<noteq> ownerID (deref s order_ptr))"
    using probe_levels_cands [of "pool (order_pool s)" order_ptr _ _ "[]" needed cands] p assms
    by (simp add: FOK_probe_def deref_def)
  show "\<forall>c \<in> set (snd (FOK_probe order_ptr s)).
           ownerID (deref s (fst c)) \<noteq> ownerID (deref s order_ptr)"
    using c by (simp add: p)
  show "\<exists>us. position_updates (snd (snd (add_FOK_order order_ptr trades s)))
                = position_updates s @ us \<and> no_self_trade us
              \<and> fst (snd (add_FOK_order order_ptr trades s)) = trades @ map (\<lambda>u. snd (snd u)) us"
  proof (cases "needed > 0")
    case True
    then show ?thesis by (simp add: add_FOK_order_def p no_self_trade_def)
  next
    case False
    obtain t1 s1 where f: "fold (FOK_fill order_ptr) cands (trades, s) = (t1, s1)"
      by (cases "fold (FOK_fill order_ptr) cands (trades, s)")
    show ?thesis
      using fold_FOK_fill_no_self_trade [of cands s order_ptr trades] c False
      by (simp add: add_FOK_order_def p f)
  qed
qed

lemma check_orders_owner:
  assumes "check_orders mem order_ptr ps needed cands = (done, needed', cands')"
      and "\<forall>c \<in> set cands. ownerID (mem ! fst c) \<noteq> ownerID (mem ! order_ptr)"
  shows "\<forall>c \<in> set cands'. ownerID (mem ! fst c) \<noteq> ownerID (mem ! order_ptr)"
  using assms
proof (induction ps arbitrary: needed cands)
  case Nil
  then show ?case by simp
next
  case (Cons p ps)
  show ?case
  proof (cases "ownerID (mem ! order_ptr) = ownerID (mem ! p)")
    case True
    then have "check_orders mem order_ptr ps needed cands = (done, needed', cands')"
      using Cons.prems(1) by simp
    then show ?thesis using Cons.IH Cons.prems(2) by blast
  next
    case False
    let ?av = "min needed (display (mem ! p))"
    let ?c1 = "cands @ [(p, ?av)]"
    have o1: "\<forall>c \<in> set ?c1. ownerID (mem ! fst c) \<noteq> ownerID (mem ! order_ptr)"
      using Cons.prems(2) False by auto
    show ?thesis
    proof (cases "wrap64 (needed - ?av) \<le> 0")
      case True
      then have "cands' = ?c1" using Cons.prems(1) False by (simp add: Let_def)
      then show ?thesis using o1 by simp
    next
      case more: False
      then have "check_orders mem order_ptr ps (wrap64 (needed - ?av)) ?c1 = (done, needed', cands')"
        using Cons.prems(1) False by (simp add: Let_def)
      from Cons.IH [OF this o1] show ?thesis .
    qed
  qed
qed

lemma probe_levels_owner:
  assumes "probe_levels mem order_ptr levels needed cands = (needed', cands')"
      and "\<forall>c \<in> set cands. ownerID (mem ! fst c) \<noteq> ownerID (mem ! order_ptr)"
  shows "\<forall>c \<in> set cands'. ownerID (mem ! fst c) \<noteq> ownerID (mem ! order_ptr)"
  using assms
proof (induction levels arbitrary: needed cands)
  case Nil
  then show ?case by simp
next
  case (Cons a levels)
  obtain price_level level where a: "a = (price_level, level)" by (cases a)
  show ?case
  proof (cases "if side (mem ! order_ptr) = BUY then price_level > price (mem ! order_ptr)
                else price_level < price (mem ! order_ptr)")
    case True
    then have "cands' = cands" using Cons.prems(1) by (auto simp: a split: if_splits)
    then show ?thesis using Cons.prems by simp
  next
    case False
    obtain d1 n1 c1 where r1: "check_orders mem order_ptr (mm_orders level) needed cands = (d1, n1, c1)"
      by (cases "check_orders mem order_ptr (mm_orders level) needed cands") auto
    have i1: "\<forall>c \<in> set c1. ownerID (mem ! fst c) \<noteq> ownerID (mem ! order_ptr)"
      using check_orders_owner [OF r1 Cons.prems(2)] .
    obtain n2 c2 where r2:
      "(if \<not> d1 \<and> n1 > 0
        then snd (check_orders mem order_ptr (regular_orders level) n1 c1) else (n1, c1)) = (n2, c2)"
      by (cases "if \<not> d1 \<and> n1 > 0
        then snd (check_orders mem order_ptr (regular_orders level) n1 c1) else (n1, c1)") auto
    have i2: "\<forall>c \<in> set c2. ownerID (mem ! fst c) \<noteq> ownerID (mem ! order_ptr)"
    proof (cases "\<not> d1 \<and> n1 > 0")
      case True
      obtain d2 where "check_orders mem order_ptr (regular_orders level) n1 c1 = (d2, n2, c2)"
        using r2 True by (cases "check_orders mem order_ptr (regular_orders level) n1 c1") auto
      from check_orders_owner [OF this i1] show ?thesis .
    next
      case False
      then have "c2 = c1" using r2 by auto
      then show ?thesis using i1 by simp
    qed
    show ?thesis
    proof (cases "n2 \<le> 0")
      case True
      then have "cands' = c2" using Cons.prems(1) False r1 r2 by (simp add: a)
      then show ?thesis using i2 by simp
    next
      case more: False
      have "probe_levels mem order_ptr levels n2 c2 = (needed', cands')"
        using Cons.prems(1) False r1 r2 more by (simp add: a)
      from Cons.IH [OF this i2] show ?thesis .
    qed
  qed
qed

lemma FOK_probe_owner:
  "\<forall>c \<in> set (snd (FOK_probe order_ptr s)).
     ownerID (deref s (fst c)) \<noteq> ownerID (deref s order_ptr)"
proof -
  obtain needed cands where p: "FOK_probe order_ptr s = (needed, cands)"
    by (cases "FOK_probe order_ptr s")
  show ?thesis
    using probe_levels_owner [of "pool (order_pool s)" order_ptr _ _ "[]" needed cands] p
    by (simp add: FOK_probe_def deref_def)
qed

text \<open>
  C7 (as amended). Every trade that the limit and the market loop emit is reported with
  a buyer's owner that differs from the seller's owner, and so is every trade of the FOK
  path when no order rests twice in the opposite book. In the limit and in the market
  loop, when the front passive order of the level has the owner of the incoming order,
  the iteration emits no trade, pops the passive order from its level, erases its id
  from the id index and releases its object, and the loop goes on with what is left of
  the level (in the limit loop, where \<open>cancel_order\<close> does this, given that the id index
  maps the passive order's id to it and that it is not a second time in its level; when
  nothing is left of the level, \<open>cancel_order\<close> has erased the level). The FOK path does
  not remove such an order: its probe skips it, so that no candidate of the probe has
  the owner of the incoming order.
\<close>

theorem self_trade_prevention:
  "(match_book fuel limit sd order_ptr trades s = Some (trades', s') \<longrightarrow>
      (\<exists>us. position_updates s' = position_updates s @ us \<and> no_self_trade us
           \<and> trades' = trades @ map (\<lambda>u. snd (snd u)) us))
   \<and> (distinct (book_orders (side_book (other_side (side (deref s order_ptr))) s)) \<longrightarrow>
        (\<exists>us. position_updates (snd (snd (add_FOK_order order_ptr trades s)))
                = position_updates s @ us \<and> no_self_trade us
             \<and> fst (snd (add_FOK_order order_ptr trades s))
                 = trades @ map (\<lambda>u. snd (snd u)) us))
   \<and> (\<forall>c \<in> set (snd (FOK_probe order_ptr s)).
         ownerID (deref s (fst c)) \<noteq> ownerID (deref s order_ptr))
   \<and> (map_find best_price (side_book (other_side sd) s) = Some level
        \<and> 0 < display (deref s order_ptr) \<and> \<not> PriceLevel_empty level
        \<and> ownerID (deref s order_ptr) = ownerID (deref s (PriceLevel_front level))
        \<and> (is_limit \<longrightarrow>
              orders s (order_id (deref s (PriceLevel_front level))) = Some (PriceLevel_front level)
              \<and> PriceLevel_front level \<notin> set (PriceLevel_queue (PriceLevel_pop_front level))) \<longrightarrow>
        match_level (Suc fuel) is_limit sd order_ptr best_price trades s
          = match_level fuel is_limit sd order_ptr best_price trades
              (self_trade is_limit sd best_price level (PriceLevel_front level) s)
        \<and> position_updates (self_trade is_limit sd best_price level (PriceLevel_front level) s)
            = position_updates s
        \<and> orders (self_trade is_limit sd best_price level (PriceLevel_front level) s)
            = (orders s)(order_id (deref s (PriceLevel_front level)) := None)
        \<and> order_pool (self_trade is_limit sd best_price level (PriceLevel_front level) s)
            = release (Some (PriceLevel_front level)) (order_pool s)
        \<and> (map_find best_price (side_book (other_side sd)
               (self_trade is_limit sd best_price level (PriceLevel_front level) s))
             = Some (PriceLevel_pop_front level)
           \<or> map_find best_price (side_book (other_side sd)
               (self_trade is_limit sd best_price level (PriceLevel_front level) s)) = None
             \<and> PriceLevel_empty (PriceLevel_pop_front level)))"
proof (intro conjI impI)
  assume "match_book fuel limit sd order_ptr trades s = Some (trades', s')"
  then show "\<exists>us. position_updates s' = position_updates s @ us \<and> no_self_trade us
           \<and> trades' = trades @ map (\<lambda>u. snd (snd u)) us"
    by (rule match_book_no_self_trade)
next
  assume d: "distinct (book_orders (side_book (other_side (side (deref s order_ptr))) s))"
  show "\<exists>us. position_updates (snd (snd (add_FOK_order order_ptr trades s)))
                = position_updates s @ us \<and> no_self_trade us
             \<and> fst (snd (add_FOK_order order_ptr trades s))
                 = trades @ map (\<lambda>u. snd (snd u)) us"
    by (rule add_FOK_order_no_self_trade(1) [OF d])
next
  show "\<forall>c \<in> set (snd (FOK_probe order_ptr s)).
         ownerID (deref s (fst c)) \<noteq> ownerID (deref s order_ptr)"
    by (rule FOK_probe_owner)
next
  let ?p = "PriceLevel_front level"
  assume a: "map_find best_price (side_book (other_side sd) s) = Some level
        \<and> 0 < display (deref s order_ptr) \<and> \<not> PriceLevel_empty level
        \<and> ownerID (deref s order_ptr) = ownerID (deref s ?p)
        \<and> (is_limit \<longrightarrow>
              orders s (order_id (deref s ?p)) = Some ?p
              \<and> ?p \<notin> set (PriceLevel_queue (PriceLevel_pop_front level)))"
  then have found: "map_find best_price (side_book (other_side sd) s) = Some level" by simp
  show "match_level (Suc fuel) is_limit sd order_ptr best_price trades s
          = match_level fuel is_limit sd order_ptr best_price trades
              (self_trade is_limit sd best_price level ?p s)"
    using a by (simp add: Let_def)
  show "position_updates (self_trade is_limit sd best_price level ?p s) = position_updates s"
    by (rule position_updates_self_trade)
  show "orders (self_trade is_limit sd best_price level ?p s)
            = (orders s)(order_id (deref s ?p) := None)"
    using a self_trade_market(2) [OF found] self_trade_limit(2) [OF found]
    by (cases is_limit) simp_all
  show "order_pool (self_trade is_limit sd best_price level ?p s)
            = release (Some ?p) (order_pool s)"
    using a self_trade_market(3) [OF found] self_trade_limit(3) [OF found]
    by (cases is_limit) simp_all
  show "map_find best_price (side_book (other_side sd)
               (self_trade is_limit sd best_price level ?p s))
             = Some (PriceLevel_pop_front level)
           \<or> map_find best_price (side_book (other_side sd)
               (self_trade is_limit sd best_price level ?p s)) = None
             \<and> PriceLevel_empty (PriceLevel_pop_front level)"
    using a self_trade_market(4) [OF found] self_trade_limit(4) [OF found]
    by (cases is_limit) simp_all
qed

lemmas self_eval = self_trade_book_def self_trade_limit_book_def self_trade_FOK_book_def
  book_orders_def PriceLevel_queue_def no_self_trade_def

text \<open>
  In \<open>self_trade_limit_book\<close> the bid of owner 7 meets the ask of owner 7 at the front
  of the level at 100: the ask is cancelled without a trade, and the bid then trades
  with the ask of owner 8 behind it. In \<open>self_trade_FOK_book\<close> the probe's only
  candidate is the ask of owner 8.
\<close>

theorem self_trade_prevention_witness:
  "(\<exists>t s' us. match_book 4 (Some 100) BUY 2 [] self_trade_limit_book = Some (t, s')
       \<and> position_updates s' = position_updates self_trade_limit_book @ us
       \<and> no_self_trade us \<and> t = map (\<lambda>u. snd (snd u)) us
       \<and> map buy_id t = [9] \<and> map sell_id t = [2])
   \<and> (\<exists>us. position_updates (snd (snd (add_FOK_order 2 [] self_trade_FOK_book)))
              = position_updates self_trade_FOK_book @ us
          \<and> no_self_trade us
          \<and> fst (snd (add_FOK_order 2 [] self_trade_FOK_book)) = map (\<lambda>u. snd (snd u)) us)
   \<and> list_all (\<lambda>c. ownerID (deref self_trade_FOK_book (fst c)) \<noteq> ownerID (deref self_trade_FOK_book 2))
       (snd (FOK_probe 2 self_trade_FOK_book))
   \<and> match_level (Suc 4) True BUY 2 100 [] self_trade_limit_book
       = match_level 4 True BUY 2 100 []
           (self_trade True BUY 100 \<lparr> mm_orders = [], regular_orders = [4, 3] \<rparr> 4 self_trade_limit_book)
   \<and> position_updates
         (self_trade True BUY 100 \<lparr> mm_orders = [], regular_orders = [4, 3] \<rparr> 4 self_trade_limit_book)
       = position_updates self_trade_limit_book
   \<and> orders (self_trade True BUY 100 \<lparr> mm_orders = [], regular_orders = [4, 3] \<rparr> 4 self_trade_limit_book)
       = [2 \<mapsto> 3]
   \<and> order_pool
         (self_trade True BUY 100 \<lparr> mm_orders = [], regular_orders = [4, 3] \<rparr> 4 self_trade_limit_book)
       = release (Some 4) (order_pool self_trade_limit_book)
   \<and> map_find 100 (side_book SELL
         (self_trade True BUY 100 \<lparr> mm_orders = [], regular_orders = [4, 3] \<rparr> 4 self_trade_limit_book))
       = Some \<lparr> mm_orders = [], regular_orders = [3] \<rparr>"
proof -
  let ?L = "\<lparr> mm_orders = [], regular_orders = [4, 3] \<rparr>"
  have "\<exists>t s'. match_book 4 (Some 100) BUY 2 [] self_trade_limit_book = Some (t, s')
          \<and> map buy_id t = [9] \<and> map sell_id t = [2]"
    by (simp add: book_eval self_eval cong: eval_cong)
  then obtain t s' where m: "match_book 4 (Some 100) BUY 2 [] self_trade_limit_book = Some (t, s')"
    and ids: "map buy_id t = [9]" "map sell_id t = [2]"
    by (elim exE conjE)
  have d: "distinct (book_orders (side_book (other_side (side (deref self_trade_FOK_book 2)))
             self_trade_FOK_book))"
    by (simp add: book_eval self_eval cong: eval_cong)
  have front: "PriceLevel_front ?L = 4"
    and pop: "PriceLevel_pop_front ?L = \<lparr> mm_orders = [], regular_orders = [3] \<rparr>"
    by (simp_all add: PriceLevel_front_def PriceLevel_pop_front_def)
  have idx: "orders self_trade_limit_book (order_id (deref self_trade_limit_book 4)) = Some 4"
    and own: "ownerID (deref self_trade_limit_book 2) = ownerID (deref self_trade_limit_book 4)"
    and disp: "0 < display (deref self_trade_limit_book 2)"
    and found: "map_find 100 (side_book (other_side BUY) self_trade_limit_book) = Some ?L"
    and oid: "order_id (deref self_trade_limit_book 4) = 1"
    and idx0: "orders self_trade_limit_book = [1 \<mapsto> 4, 2 \<mapsto> 3]"
    by (simp_all add: book_eval self_eval cong: eval_cong)
  have pre: "map_find 100 (side_book (other_side BUY) self_trade_limit_book) = Some ?L
        \<and> 0 < display (deref self_trade_limit_book 2) \<and> \<not> PriceLevel_empty ?L
        \<and> ownerID (deref self_trade_limit_book 2)
            = ownerID (deref self_trade_limit_book (PriceLevel_front ?L))
        \<and> (True \<longrightarrow>
              orders self_trade_limit_book (order_id (deref self_trade_limit_book (PriceLevel_front ?L)))
                = Some (PriceLevel_front ?L)
              \<and> PriceLevel_front ?L \<notin> set (PriceLevel_queue (PriceLevel_pop_front ?L)))"
    unfolding front pop using idx own disp found
    by (simp add: PriceLevel_empty_def PriceLevel_queue_def)
  note A = self_trade_prevention [where fuel = 4 and limit = "Some 100" and sd = BUY
      and order_ptr = 2 and trades = "[]" and s = self_trade_limit_book and trades' = t
      and s' = s' and best_price = 100 and level = ?L and is_limit = True]
  note B = self_trade_prevention [where order_ptr = 2 and trades = "[]" and s = self_trade_FOK_book]
  note a1 = A [THEN conjunct1, THEN mp, OF m]
  note a2 = B [THEN conjunct2, THEN conjunct1, THEN mp, OF d]
  note a2' = B [THEN conjunct2, THEN conjunct2, THEN conjunct1]
  note a3 = A [THEN conjunct2, THEN conjunct2, THEN conjunct2, THEN mp, OF pre, unfolded front pop]
  have ne: "\<not> PriceLevel_empty \<lparr> mm_orders = [], regular_orders = [3] \<rparr>"
    by (simp add: PriceLevel_empty_def)
  have o: "[1 \<mapsto> 4, 2 \<mapsto> 3](1 := None) = [(2::nat) \<mapsto> (3::nat)]"
    by (intro ext) simp
  show ?thesis
    using a1 a2 a2' a3 m ids ne
    by (simp add: list_all_iff oid idx0 o other_side_def)
qed

text \<open>
  C7 as stated fails in the FOK path. In \<open>self_trade_book\<close> the ask id 1 of owner 7 is
  the front passive order of the level at 100. A FOK bid of owner 7 for 5 at 100 trades
  with the ask id 2 behind it, and the ask id 1 is still in its level, in the id index
  and not among the free objects of the pool.
\<close>

theorem FOK_same_owner_left_resting:
  "PriceLevel_front (snd (hd (asks self_trade_book))) = 4
   \<and> ownerID (deref self_trade_book 4) = 7
   \<and> (\<exists>trades s'.
         add_order 4 True 0 False 9 BUY 100 5 5 0 FOK 7 0 0 self_trade_book = Some (trades, s')
         \<and> map sell_id trades = [2] \<and> map trade_quantity trades = [5]
         \<and> asks s' = [(100, \<lparr> mm_orders = [], regular_orders = [4] \<rparr>)]
         \<and> orders s' 1 = Some 4
         \<and> available (order_pool s') = [2, 3, 1, 0]
         \<and> ownerID (deref s' 4) = 7)"
  by (simp add: book_eval self_eval cong: eval_cong)

end
